theory Spec2Isabelle
  imports Main "HOL-Library.AList" "HOL-Library.Sublist"
begin

section \<open>Data model of the transcoding service\<close>

text \<open>
  The job registry of \<^verbatim>\<open>transcode.js\<close> is the module-level \<^verbatim>\<open>const jobs = new Map()\<close>.
  A JavaScript \<^verbatim>\<open>Map\<close> keeps its keys in insertion order and \<^verbatim>\<open>set\<close> on a present key
  replaces the value in place, which is what \<open>AList.update\<close> does on an association
  list; \<^verbatim>\<open>get\<close> is \<open>map_of\<close> and \<^verbatim>\<open>delete\<close> is \<open>AList.delete\<close>.

  The status strings of a file entry (\<^verbatim>\<open>'pending'\<close>, \<^verbatim>\<open>'processing'\<close>, \<^verbatim>\<open>'completed'\<close>,
  \<^verbatim>\<open>'failed'\<close>) and of a job (\<^verbatim>\<open>'processing'\<close>, \<^verbatim>\<open>'completed'\<close>,
  \<^verbatim>\<open>'completed_with_errors'\<close>, \<^verbatim>\<open>'failed'\<close>) are used as enumerations.
  \<^verbatim>\<open>null\<close> is \<open>None\<close>. Timestamps are the integer milliseconds of \<^verbatim>\<open>Date\<close>: the ISO string
  stored in \<^verbatim>\<open>startedAt\<close> is read back with \<^verbatim>\<open>new Date(..).getTime()\<close>, which returns the
  same millisecond count.
\<close>

datatype fstatus = Pending | Processing | Completed | Failed

datatype jstatus = JobProcessing | JobCompleted | JobCompletedWithErrors | JobFailed

type_synonym fspath = "string list"

record file_entry =
  name :: string
  status :: fstatus
  hlsFolder :: "string option"
  segmentCount :: nat
  error :: "string option"

record job =
  jobId :: string
  jobStatus :: jstatus
  startedAt :: int
  files :: "file_entry list"
  completedFiles :: nat
  failedFiles :: nat
  zipPath :: "fspath option"
  jobError :: "string option"
  completedAt :: "int option"

text \<open>An uploaded file as \<^verbatim>\<open>index.js\<close> hands it over: \<^verbatim>\<open>{ originalName, path, size }\<close>.\<close>

record upload =
  originalName :: string
  path :: string
  fileSize :: nat

text \<open>
  The object literal passed to \<^verbatim>\<open>updateFileStatus\<close>: a key that is absent is \<open>None\<close>.
  The three call sites pass \<^verbatim>\<open>{status}\<close>, \<^verbatim>\<open>{status, hlsFolder, segmentCount}\<close> and
  \<^verbatim>\<open>{status, error}\<close>.
\<close>

record updates =
  u_status :: "fstatus option"
  u_hlsFolder :: "string option"
  u_segmentCount :: "nat option"
  u_error :: "string option"

subsection \<open>The disk, the external tools and the observable effects\<close>

datatype node = Dir | File string

type_synonym fsys = "(fspath \<times> node) list"

text \<open>
  What a run of the external encoder leaves behind: either the process closed, with its
  exit code (\<^verbatim>\<open>null\<close> when a signal killed it), its diagnostic output and the files it
  wrote into its output directory, or it could not be started (the \<^verbatim>\<open>'error'\<close> event).
\<close>

datatype proc_result = Closed "int option" string "(string \<times> string) list" | SpawnError string

datatype js_error = Error string

fun message :: "js_error \<Rightarrow> string" where
  "message (Error m) = m"

datatype event =
    Spawn string "string list"
  | WriteFile fspath
  | Archive fspath "(fspath \<times> string) list"

record world =
  jobs :: "(string \<times> job) list"
  disk :: fsys
  trace :: "event list"

text \<open>
  The environment of a run: the encoder as a function of the disk and its argument
  vector, the archiver (an error message when it emits \<^verbatim>\<open>'error'\<close>, the bytes of the
  archive otherwise) and the two readings of the clock that \<^verbatim>\<open>transcode\<close> takes.
\<close>

record env =
  ffmpeg :: "fsys \<Rightarrow> string list \<Rightarrow> proc_result"
  archiver :: "fsys \<Rightarrow> fspath \<Rightarrow> (fspath \<times> string) list \<Rightarrow> string + string"
  startTime :: int
  endTime :: int

section \<open>Job State Store\<close>

definition initJob :: "int \<Rightarrow> string \<Rightarrow> upload list \<Rightarrow> world \<Rightarrow> job \<times> world" where
  "initJob now jid fs w =
     (let j = \<lparr> jobId = jid, jobStatus = JobProcessing, startedAt = now,
                 files = map (\<lambda>f. \<lparr> name = originalName f, status = Pending, hlsFolder = None,
                                      segmentCount = 0, error = None \<rparr>) fs,
                 completedFiles = 0, failedFiles = 0, zipPath = None, jobError = None,
                 completedAt = None \<rparr>
      in (j, w\<lparr> jobs := AList.update jid j (jobs w) \<rparr>))"

text \<open>\<^verbatim>\<open>Object.assign(file, updates)\<close>: every key present in \<^verbatim>\<open>updates\<close> overwrites the field.\<close>

definition assign :: "file_entry \<Rightarrow> updates \<Rightarrow> file_entry" where
  "assign f u =
     f\<lparr> status := (case u_status u of None \<Rightarrow> status f | Some s \<Rightarrow> s),
        hlsFolder := (case u_hlsFolder u of None \<Rightarrow> hlsFolder f | Some h \<Rightarrow> Some h),
        segmentCount := (case u_segmentCount u of None \<Rightarrow> segmentCount f | Some n \<Rightarrow> n),
        error := (case u_error u of None \<Rightarrow> error f | Some e \<Rightarrow> Some e) \<rparr>"

text \<open>
  \<^verbatim>\<open>job.files.find(f => f.name === fileName)\<close> followed by the assignment to the object
  found: the first entry of that name is the one changed, in place.
\<close>

fun assignFirst :: "string \<Rightarrow> updates \<Rightarrow> file_entry list \<Rightarrow> file_entry list" where
  "assignFirst n u [] = []"
| "assignFirst n u (f # fs) = (if name f = n then assign f u # fs else f # assignFirst n u fs)"

definition countStatus :: "fstatus \<Rightarrow> file_entry list \<Rightarrow> nat" where
  "countStatus s fs = length (filter (\<lambda>f. status f = s) fs)"

definition updateFileStatus :: "string \<Rightarrow> string \<Rightarrow> updates \<Rightarrow> world \<Rightarrow> world" where
  "updateFileStatus jid fileName upd w =
     (case map_of (jobs w) jid of
        None \<Rightarrow> w
      | Some j \<Rightarrow>
          (let fs = assignFirst fileName upd (files j);
               j' = j\<lparr> files := fs, completedFiles := countStatus Completed fs,
                        failedFiles := countStatus Failed fs \<rparr>
           in w\<lparr> jobs := AList.update jid j' (jobs w) \<rparr>))"

definition getJobStatus :: "world \<Rightarrow> string \<Rightarrow> job option" where
  "getJobStatus w jid = map_of (jobs w) jid"

section \<open>Paths\<close>

text \<open>
  A path is the list of its segments below the root. \<^verbatim>\<open>path.join(dir, s)\<close> with an
  absolute, normalised \<open>dir\<close> splits \<open>s\<close> at every \<^verbatim>\<open>/\<close> and normalises: an empty segment
  and \<^verbatim>\<open>.\<close> are dropped, \<^verbatim>\<open>..\<close> steps up (and stays at the root).
\<close>

definition TEMP_DIR :: fspath where
  "TEMP_DIR = [''tmp'', ''hls-jobs'']"

primrec splitSlash :: "string \<Rightarrow> string \<Rightarrow> string list" where
  "splitSlash acc [] = [rev acc]"
| "splitSlash acc (c # cs) =
     (if c = CHR ''/'' then rev acc # splitSlash [] cs else splitSlash (c # acc) cs)"

definition joinSegment :: "fspath \<Rightarrow> string \<Rightarrow> fspath" where
  "joinSegment p s =
     (if s = [] \<or> s = ''.'' then p else if s = ''..'' then butlast p else p @ [s])"

definition path_join :: "fspath \<Rightarrow> string \<Rightarrow> fspath" where
  "path_join p s = foldl joinSegment p (splitSlash [] s)"

definition path_string :: "fspath \<Rightarrow> string" where
  "path_string p = (if p = [] then ''/'' else concat (map (\<lambda>s. CHR ''/'' # s) p))"

text \<open>A name that \<^verbatim>\<open>path.join\<close> appends as one segment.\<close>

definition plainSegment :: "string \<Rightarrow> bool" where
  "plainSegment s \<longleftrightarrow> s \<noteq> [] \<and> s \<noteq> ''.'' \<and> s \<noteq> ''..'' \<and> CHR ''/'' \<notin> set s"

definition endsWith :: "string \<Rightarrow> string \<Rightarrow> bool" where
  "endsWith s suf \<longleftrightarrow> length suf \<le> length s \<and> drop (length s - length suf) s = suf"

text \<open>
  \<^verbatim>\<open>path.basename(p, ext)\<close> of Node (POSIX): the last segment of \<open>p\<close>, trailing slashes
  ignored, without the suffix \<open>ext\<close> when the segment ends with it and is longer than it;
  a path that is \<open>ext\<close> itself gives the empty string. The comparison is by character, so
  it is case-sensitive.
\<close>

definition lastSegment :: "string \<Rightarrow> string" where
  "lastSegment p =
     rev (takeWhile (\<lambda>c. c \<noteq> CHR ''/'') (dropWhile (\<lambda>c. c = CHR ''/'') (rev p)))"

definition basename :: "string \<Rightarrow> string \<Rightarrow> string" where
  "basename p ext =
     (if ext = p then []
      else (let b = lastSegment p
            in if length ext < length b \<and> endsWith b ext
               then take (length b - length ext) b else b))"

section \<open>File system operations\<close>

text \<open>
  The disk maps a path to a directory or to a file with its bytes; the root always
  exists. Only the errors that the state of the disk decides are modelled (a file where
  a directory is needed, a missing directory), not a full disk or missing permissions.
\<close>

definition statNode :: "fsys \<Rightarrow> fspath \<Rightarrow> node option" where
  "statNode d p = (if p = [] then Some Dir else map_of d p)"

definition existsSync :: "fsys \<Rightarrow> fspath \<Rightarrow> bool" where
  "existsSync d p \<longleftrightarrow> statNode d p \<noteq> None"

definition isDirectory :: "fsys \<Rightarrow> fspath \<Rightarrow> bool" where
  "isDirectory d p \<longleftrightarrow> statNode d p = Some Dir"

text \<open>\<^verbatim>\<open>fs.mkdirSync(p, { recursive: true })\<close>: every missing ancestor is created.\<close>

fun mkdirFrom :: "fspath \<Rightarrow> string list \<Rightarrow> fsys \<Rightarrow> js_error + fsys" where
  "mkdirFrom pre [] d = Inr d"
| "mkdirFrom pre (s # ss) d =
     (case map_of d (pre @ [s]) of
        Some (File c) \<Rightarrow>
          Inl (Error ((if ss = [] then ''EEXIST: file already exists, mkdir ''
                       else ''ENOTDIR: not a directory, mkdir '') @ path_string (pre @ s # ss)))
      | Some Dir \<Rightarrow> mkdirFrom (pre @ [s]) ss d
      | None \<Rightarrow> mkdirFrom (pre @ [s]) ss (AList.update (pre @ [s]) Dir d))"

definition mkdirSync :: "fsys \<Rightarrow> fspath \<Rightarrow> js_error + fsys" where
  "mkdirSync d p = mkdirFrom [] p d"

definition entries :: "fsys \<Rightarrow> fspath \<Rightarrow> string list" where
  "entries d p = map last (filter (\<lambda>q. q \<noteq> [] \<and> butlast q = p) (remdups (map fst d)))"

definition readdirSync :: "fsys \<Rightarrow> fspath \<Rightarrow> js_error + string list" where
  "readdirSync d p =
     (case statNode d p of
        Some Dir \<Rightarrow> Inr (entries d p)
      | Some (File c) \<Rightarrow> Inl (Error (''ENOTDIR: not a directory, scandir '' @ path_string p))
      | None \<Rightarrow> Inl (Error (''ENOENT: no such file or directory, scandir '' @ path_string p)))"

definition writeFileSync :: "fsys \<Rightarrow> fspath \<Rightarrow> string \<Rightarrow> js_error + fsys" where
  "writeFileSync d p c =
     (if isDirectory d p
      then Inl (Error (''EISDIR: illegal operation on a directory, open '' @ path_string p))
      else if \<not> isDirectory d (butlast p)
      then Inl (Error (''ENOENT: no such file or directory, open '' @ path_string p))
      else Inr (AList.update p (File c) d))"

text \<open>\<^verbatim>\<open>fs.rmSync(p, { recursive: true, force: true })\<close>: \<open>p\<close> and all below it go.\<close>

definition rmSync :: "fsys \<Rightarrow> fspath \<Rightarrow> fsys" where
  "rmSync d p = filter (\<lambda>(q, n). take (length p) q \<noteq> p) d"

section \<open>Variant Encoder\<close>

record variant =
  vname :: string
  bitrate :: string
  bandwidth :: nat

definition BITRATE_LADDER :: "variant list" where
  "BITRATE_LADDER =
     [\<lparr> vname = ''low'', bitrate = ''32k'', bandwidth = 48000 \<rparr>,
      \<lparr> vname = ''medium'', bitrate = ''64k'', bandwidth = 96000 \<rparr>,
      \<lparr> vname = ''high'', bitrate = ''96k'', bandwidth = 144000 \<rparr>,
      \<lparr> vname = ''premium'', bitrate = ''128k'', bandwidth = 192000 \<rparr>]"

record hls_config =
  segmentDuration :: nat
  audioCodec :: string
  sampleRate :: nat
  channels :: nat

definition HLS_CONFIG :: hls_config where
  "HLS_CONFIG = \<lparr> segmentDuration = 6, audioCodec = ''aac'', sampleRate = 44100, channels = 2 \<rparr>"

text \<open>Decimal rendering of numbers, as \<^verbatim>\<open>toString()\<close> and a template literal give it.\<close>

definition digitChar :: "nat \<Rightarrow> char" where
  "digitChar n = ''0123456789'' ! (n mod 10)"

fun toString :: "nat \<Rightarrow> string" where
  "toString n = (if n < 10 then [digitChar n] else toString (n div 10) @ [digitChar n])"

declare toString.simps [simp del]

definition showCode :: "int option \<Rightarrow> string" where
  "showCode c =
     (case c of
        None \<Rightarrow> ''null''
      | Some i \<Rightarrow> (if i < 0 then CHR ''-'' # toString (nat (- i)) else toString (nat i)))"

text \<open>\<^verbatim>\<open>s.slice(-n)\<close>: the last \<open>n\<close> characters, the whole string when it is shorter.\<close>

definition sliceLast :: "nat \<Rightarrow> string \<Rightarrow> string" where
  "sliceLast n s = drop (length s - n) s"

definition ffmpegArgs :: "string \<Rightarrow> fspath \<Rightarrow> string \<Rightarrow> string list" where
  "ffmpegArgs inputPath outputDir br =
     [''-i'', inputPath,
      ''-c:a'', audioCodec HLS_CONFIG,
      ''-b:a'', br,
      ''-ar'', toString (sampleRate HLS_CONFIG),
      ''-ac'', toString (channels HLS_CONFIG),
      ''-f'', ''hls'',
      ''-hls_time'', toString (segmentDuration HLS_CONFIG),
      ''-hls_playlist_type'', ''vod'',
      ''-hls_segment_filename'', path_string (path_join outputDir ''segment_%03d.ts''),
      ''-y'',
      path_string (path_join outputDir ''index.m3u8'')]"

text \<open>The files the encoder leaves in its output directory, written over what was there.\<close>

definition writeOutputs :: "fspath \<Rightarrow> (string \<times> string) list \<Rightarrow> fsys \<Rightarrow> fsys" where
  "writeOutputs outputDir outs d =
     fold (\<lambda>(n, c). AList.update (outputDir @ [n]) (File c)) outs d"

text \<open>
  The promise of \<^verbatim>\<open>transcodeVariant\<close>: \<open>Inr\<close> is \<^verbatim>\<open>resolve({ success: true, segmentCount })\<close>,
  \<open>Inl\<close> is \<^verbatim>\<open>reject\<close>. The segments are counted in the listing of the output directory.
  (\<^verbatim>\<open>readdirSync\<close> runs in the \<^verbatim>\<open>close\<close> handler; it cannot throw after \<^verbatim>\<open>transcodeFile\<close>
  has created the directory, and the model turns a throw there into a rejection.)
\<close>

definition transcodeVariant ::
  "env \<Rightarrow> string \<Rightarrow> fspath \<Rightarrow> string \<Rightarrow> world \<Rightarrow> (js_error + nat) \<times> world" where
  "transcodeVariant e inputPath outputDir br w =
     (let args = ffmpegArgs inputPath outputDir br;
          w1 = w\<lparr> trace := trace w @ [Spawn ''ffmpeg'' args] \<rparr>
      in case ffmpeg e (disk w) args of
           SpawnError m \<Rightarrow> (Inl (Error m), w1)
         | Closed code stderr outs \<Rightarrow>
             (let w2 = w1\<lparr> disk := writeOutputs outputDir outs (disk w) \<rparr>
              in if code = Some 0
                 then (case readdirSync (disk w2) outputDir of
                         Inl err \<Rightarrow> (Inl err, w2)
                       | Inr fs \<Rightarrow> (Inr (length (filter (\<lambda>f. endsWith f ''.ts'') fs)), w2))
                 else (Inl (Error (''FFmpeg exited with code '' @ showCode code @ '': ''
                                   @ sliceLast 200 stderr)), w2)))"

section \<open>Package Builder\<close>

definition newline :: string where
  "newline = [CHR 0x0A]"

definition quoteMark :: string where
  "quoteMark = [CHR 0x22]"

definition generateMasterPlaylist :: string where
  "generateMasterPlaylist =
     concat (map (\<lambda>l. l @ newline)
       [''#EXTM3U'',
        ''#EXT-X-VERSION:3'',
        [],
        ''# 32 kbps LOW'',
        ''#EXT-X-STREAM-INF:BANDWIDTH=48000,CODECS='' @ quoteMark @ ''mp4a.40.2'' @ quoteMark,
        ''low/index.m3u8'',
        [],
        ''# 64 kbps MEDIUM'',
        ''#EXT-X-STREAM-INF:BANDWIDTH=96000,CODECS='' @ quoteMark @ ''mp4a.40.2'' @ quoteMark,
        ''medium/index.m3u8'',
        [],
        ''# 96 kbps HIGH'',
        ''#EXT-X-STREAM-INF:BANDWIDTH=144000,CODECS='' @ quoteMark @ ''mp4a.40.2'' @ quoteMark,
        ''high/index.m3u8'',
        [],
        ''# 128 kbps PREMIUM'',
        ''#EXT-X-STREAM-INF:BANDWIDTH=192000,CODECS='' @ quoteMark @ ''mp4a.40.2'' @ quoteMark,
        ''premium/index.m3u8''])"

text \<open>
  \<^verbatim>\<open>parseInt\<close> on a string that starts with decimal digits (as the bitrates of the ladder
  do): the number the leading digits spell; \<^verbatim>\<open>NaN\<close>, here \<open>None\<close>, when there is none.
\<close>

definition isDigit :: "char \<Rightarrow> bool" where
  "isDigit c \<longleftrightarrow> c \<in> set ''0123456789''"

definition parseInt :: "string \<Rightarrow> int option" where
  "parseInt s =
     (let ds = takeWhile isDigit s
      in if ds = [] then None
         else Some (foldl (\<lambda>n c. 10 * n + (of_char c - 48)) 0 ds))"

record variant_info =
  vi_name :: string
  vi_bitrate :: "int option"
  vi_bandwidth :: nat
  vi_segmentCount :: nat

record package =
  pk_success :: bool
  pk_hlsFolder :: string
  pk_segmentCount :: nat
  pk_hlsDir :: fspath
  pk_variants :: "variant_info list"
  pk_isMultiBitrate :: bool

text \<open>The first loop of \<^verbatim>\<open>transcodeFile\<close>: one directory per variant; a throw ends it.\<close>

fun mkdirLadder :: "fspath \<Rightarrow> variant list \<Rightarrow> world \<Rightarrow> (js_error + unit) \<times> world" where
  "mkdirLadder hlsDir [] w = (Inr (), w)"
| "mkdirLadder hlsDir (v # vs) w =
     (case mkdirSync (disk w) (path_join hlsDir (vname v)) of
        Inl err \<Rightarrow> (Inl err, w)
      | Inr d \<Rightarrow> mkdirLadder hlsDir vs (w\<lparr> disk := d \<rparr>))"

text \<open>
  The second loop: the variants are encoded one after the other; \<open>vs\<close> and \<open>tot\<close> are the
  \<^verbatim>\<open>variants\<close> array and \<^verbatim>\<open>totalSegments\<close> so far. A rejected \<^verbatim>\<open>await\<close> leaves the loop.
\<close>

fun encodeLadder ::
  "env \<Rightarrow> string \<Rightarrow> fspath \<Rightarrow> variant list \<Rightarrow> variant_info list \<Rightarrow> nat \<Rightarrow> world
     \<Rightarrow> (js_error + variant_info list \<times> nat) \<times> world" where
  "encodeLadder e inputPath hlsDir [] vs tot w = (Inr (vs, tot), w)"
| "encodeLadder e inputPath hlsDir (v # rest) vs tot w =
     (case transcodeVariant e inputPath (path_join hlsDir (vname v)) (bitrate v) w of
        (Inl err, w') \<Rightarrow> (Inl err, w')
      | (Inr n, w') \<Rightarrow>
          encodeLadder e inputPath hlsDir rest
            (vs @ [\<lparr> vi_name = vname v, vi_bitrate = parseInt (bitrate v),
                     vi_bandwidth = bandwidth v, vi_segmentCount = n \<rparr>])
            (tot + n) w')"

definition transcodeFile ::
  "env \<Rightarrow> string \<Rightarrow> fspath \<Rightarrow> string \<Rightarrow> world \<Rightarrow> (js_error + package) \<times> world" where
  "transcodeFile e inputPath outputDir fileName w =
     (let baseName = basename fileName ''.mp3'';
          hlsDir = path_join outputDir baseName
      in case mkdirLadder hlsDir BITRATE_LADDER w of
           (Inl err, w1) \<Rightarrow> (Inl err, w1)
         | (Inr u, w1) \<Rightarrow>
             (case encodeLadder e inputPath hlsDir BITRATE_LADDER [] 0 w1 of
                (Inl err, w2) \<Rightarrow> (Inl err, w2)
              | (Inr (vs, tot), w2) \<Rightarrow>
                  (case writeFileSync (disk w2) (path_join hlsDir ''master.m3u8'')
                          generateMasterPlaylist of
                     Inl err \<Rightarrow> (Inl err, w2)
                   | Inr d \<Rightarrow>
                       (Inr \<lparr> pk_success = True, pk_hlsFolder = baseName,
                              pk_segmentCount = tot, pk_hlsDir = hlsDir, pk_variants = vs,
                              pk_isMultiBitrate = True \<rparr>,
                        w2\<lparr> disk := d,
                            trace := trace w2 @ [WriteFile (path_join hlsDir ''master.m3u8'')] \<rparr>))))"

section \<open>Archive Assembler\<close>

text \<open>
  \<^verbatim>\<open>createZipArchive\<close> lists the job directory and hands every entry that is a directory
  and is not named \<^verbatim>\<open>uploads\<close> to \<^verbatim>\<open>archive.directory(itemPath, item)\<close>. The names that
  \<^verbatim>\<open>readdirSync\<close> returns are entries of the directory, so \<^verbatim>\<open>path.join\<close> appends them. The
  \<open>Archive\<close> event records what was handed to the archiver: the directories and the names
  they get inside the archive. The promise resolves with the path of the archive, or is
  rejected when the listing throws or the archiver reports an error.
\<close>

definition archiveItems :: "fsys \<Rightarrow> fspath \<Rightarrow> string list \<Rightarrow> (fspath \<times> string) list" where
  "archiveItems d outputDir items =
     map (\<lambda>item. (outputDir @ [item], item))
       (filter (\<lambda>item. isDirectory d (outputDir @ [item]) \<and> item \<noteq> ''uploads'') items)"

definition createZipArchive ::
  "env \<Rightarrow> string \<Rightarrow> fspath \<Rightarrow> world \<Rightarrow> (js_error + fspath) \<times> world" where
  "createZipArchive e jid outputDir w =
     (let zp = path_join outputDir ''hls-output.zip''
      in case readdirSync (disk w) outputDir of
           Inl err \<Rightarrow> (Inl err, w)
         | Inr items \<Rightarrow>
             (let added = archiveItems (disk w) outputDir items;
                  w1 = w\<lparr> trace := trace w @ [Archive zp added] \<rparr>
              in case archiver e (disk w) zp added of
                   Inl m \<Rightarrow> (Inl (Error m), w1)
                 | Inr bytes \<Rightarrow> (Inr zp, w1\<lparr> disk := AList.update zp (File bytes) (disk w) \<rparr>)))"

section \<open>Job Orchestrator\<close>

text \<open>The loop over the files of a job, with its inner \<^verbatim>\<open>try\<close>/\<^verbatim>\<open>catch\<close>.\<close>

fun fileLoop :: "env \<Rightarrow> string \<Rightarrow> fspath \<Rightarrow> upload list \<Rightarrow> world \<Rightarrow> world" where
  "fileLoop e jid jobDir [] w = w"
| "fileLoop e jid jobDir (f # fs) w =
     (let w1 = updateFileStatus jid (originalName f)
                 \<lparr> u_status = Some Processing, u_hlsFolder = None, u_segmentCount = None,
                   u_error = None \<rparr> w
      in case transcodeFile e (path f) jobDir (originalName f) w1 of
           (Inr r, w2) \<Rightarrow>
             fileLoop e jid jobDir fs
               (updateFileStatus jid (originalName f)
                  \<lparr> u_status = Some Completed, u_hlsFolder = Some (pk_hlsFolder r),
                    u_segmentCount = Some (pk_segmentCount r), u_error = None \<rparr> w2)
         | (Inl err, w2) \<Rightarrow>
             fileLoop e jid jobDir fs
               (updateFileStatus jid (originalName f)
                  \<lparr> u_status = Some Failed, u_hlsFolder = None, u_segmentCount = None,
                    u_error = Some (message err) \<rparr> w2))"

text \<open>
  \<^verbatim>\<open>transcode\<close> keeps the object that \<^verbatim>\<open>initJob\<close> returned in its variable \<^verbatim>\<open>job\<close>; the registry
  holds the same object, so an assignment to a field of \<^verbatim>\<open>job\<close> is seen by
  \<^verbatim>\<open>getJobStatus\<close>. \<open>storeJob\<close> writes such an assignment through to the registry (it never
  adds a key). The run is taken on its own: nothing else removes or replaces the job
  between two steps of it.
\<close>

definition storeJob :: "string \<Rightarrow> job \<Rightarrow> world \<Rightarrow> job \<times> world" where
  "storeJob jid j w =
     (j, if map_of (jobs w) jid = None then w else w\<lparr> jobs := AList.update jid j (jobs w) \<rparr>)"

definition transcode :: "env \<Rightarrow> string \<Rightarrow> upload list \<Rightarrow> world \<Rightarrow> job \<times> world" where
  "transcode e jid fs w =
     (let jobDir = path_join TEMP_DIR jid;
          w1 = fileLoop e jid jobDir fs (snd (initJob (startTime e) jid fs w));
          j = (case map_of (jobs w1) jid of
                 Some j' \<Rightarrow> j'
               | None \<Rightarrow> fst (initJob (startTime e) jid fs w))
      in if filter (\<lambda>f. status f = Completed) (files j) \<noteq> []
         then (case createZipArchive e jid jobDir w1 of
                 (Inr zp, w2) \<Rightarrow>
                   storeJob jid
                     (j\<lparr> zipPath := Some zp,
                         jobStatus := (if failedFiles j > 0 then JobCompletedWithErrors
                                       else JobCompleted),
                         completedAt := Some (endTime e) \<rparr>) w2
               | (Inl err, w2) \<Rightarrow>
                   storeJob jid
                     (j\<lparr> jobStatus := JobFailed, jobError := Some (message err),
                         completedAt := Some (endTime e) \<rparr>) w2)
         else storeJob jid
                (j\<lparr> jobStatus := JobFailed, jobError := Some ''All files failed to transcode'',
                    completedAt := Some (endTime e) \<rparr>) w1)"

section \<open>Deletion and the expiry sweep\<close>

definition cleanupJob :: "string \<Rightarrow> world \<Rightarrow> world" where
  "cleanupJob jid w =
     (let jobDir = path_join TEMP_DIR jid
      in w\<lparr> disk := (if existsSync (disk w) jobDir then rmSync (disk w) jobDir else disk w),
            jobs := AList.delete jid (jobs w) \<rparr>)"

text \<open>
  The sweep visits every entry of the registry once; the only entry that a visit removes
  is the one being visited, so iterating over the entries as they were at the start
  visits the same jobs as the live iterator of the \<^verbatim>\<open>Map\<close>.
\<close>

definition cleanupOldJobs :: "int \<Rightarrow> int \<Rightarrow> world \<Rightarrow> world" where
  "cleanupOldJobs now maxAgeMinutes w =
     fold (\<lambda>(jid, j) w'.
             if now - startedAt j > maxAgeMinutes * 60 * 1000 then cleanupJob jid w' else w')
          (jobs w) w"

section \<open>Synchronous transcode\<close>

record hls_file =
  hf_name :: string
  hf_path :: fspath
  hf_size :: nat

definition depthBound :: "fsys \<Rightarrow> nat" where
  "depthBound d = foldr (\<lambda>q m. max (length q) m) (map fst d) 0"

text \<open>
  \<^verbatim>\<open>collectHLSFiles\<close> walks the package directory; a directory is entered, a file is
  listed with its path relative to the package. The walk ends because every entry lies
  one level deeper and the disk holds finitely many paths.
\<close>

lemma depthBound_ge: "q \<in> fst ` set d \<Longrightarrow> length q \<le> depthBound d"
  unfolding depthBound_def by (induction d) (auto simp: le_max_iff_disj)

lemma entries_mem: "item \<in> set (entries d dir) \<Longrightarrow> dir @ [item] \<in> fst ` set d"
  unfolding entries_def by (auto simp: image_iff) (metis fst_conv)

function readDir :: "fsys \<Rightarrow> fspath \<Rightarrow> string \<Rightarrow> hls_file list" where
  "readDir d dir relPrefix =
     concat (map (\<lambda>item.
                    if isDirectory d (dir @ [item])
                    then readDir d (dir @ [item])
                           (if relPrefix = [] then item else relPrefix @ ''/'' @ item)
                    else [\<lparr> hf_name = (if relPrefix = [] then item else relPrefix @ ''/'' @ item),
                            hf_path = dir @ [item],
                            hf_size = (case statNode d (dir @ [item]) of
                                         Some (File c) \<Rightarrow> length c | _ \<Rightarrow> 0) \<rparr>])
                 (entries d dir))"
  by pat_completeness auto
termination readDir
  apply (relation "measure (\<lambda>(d, dir, p). Suc (depthBound d) - length dir)")
   apply simp
  apply (auto dest!: entries_mem depthBound_ge)
  done

declare readDir.simps [simp del]

definition collectHLSFiles :: "fsys \<Rightarrow> fspath \<Rightarrow> js_error + hls_file list" where
  "collectHLSFiles d hlsDir =
     (case readdirSync d hlsDir of Inl err \<Rightarrow> Inl err | Inr items \<Rightarrow> Inr (readDir d hlsDir []))"

text \<open>
  The record that \<^verbatim>\<open>transcodeSync\<close> returns: \<^verbatim>\<open>{ success: true, hlsFolder, segmentCount, files,
  variants, isMultiBitrate: true }\<close> or \<^verbatim>\<open>{ success: false, error }\<close>.
\<close>

datatype sync_result =
    SyncSuccess string nat "hls_file list" "variant_info list"
  | SyncFailure string

fun success :: "sync_result \<Rightarrow> bool" where
  "success (SyncSuccess folder n fs vs) = True"
| "success (SyncFailure m) = False"

text \<open>
  \<open>Inl\<close> is an exception that leaves \<^verbatim>\<open>transcodeSync\<close> (the promise is rejected): only the
  \<^verbatim>\<open>mkdirSync\<close> in front of the \<^verbatim>\<open>try\<close> can raise one.
\<close>

definition transcodeSync ::
  "env \<Rightarrow> string \<Rightarrow> upload \<Rightarrow> world \<Rightarrow> (js_error + sync_result) \<times> world" where
  "transcodeSync e jid file w =
     (let jobDir = path_join TEMP_DIR jid
      in case (if \<not> existsSync (disk w) jobDir then mkdirSync (disk w) jobDir
               else Inr (disk w)) of
           Inl err \<Rightarrow> (Inl err, w)
         | Inr d \<Rightarrow>
             (case transcodeFile e (path file) jobDir (originalName file) (w\<lparr> disk := d \<rparr>) of
                (Inl err, w1) \<Rightarrow> (Inr (SyncFailure (message err)), w1)
              | (Inr r, w1) \<Rightarrow>
                  (case collectHLSFiles (disk w1) (pk_hlsDir r) of
                     Inl err \<Rightarrow> (Inr (SyncFailure (message err)), w1)
                   | Inr hlsFiles \<Rightarrow>
                       (Inr (SyncSuccess (pk_hlsFolder r) (pk_segmentCount r) hlsFiles
                               (pk_variants r)), w1))))"

section \<open>Archive retrieval\<close>

text \<open>The handler of \<^verbatim>\<open>GET /download/:jobId\<close> in \<^verbatim>\<open>index.js\<close>.\<close>

datatype response = Json nat string | SendFile fspath string

definition download :: "world \<Rightarrow> string \<Rightarrow> response" where
  "download w jid =
     (case getJobStatus w jid of
        None \<Rightarrow> Json 404 ''Job not found''
      | Some st \<Rightarrow>
          if jobStatus st \<noteq> JobCompleted then Json 400 ''Job not yet completed''
          else (case zipPath st of
                  None \<Rightarrow> Json 404 ''ZIP file not found''
                | Some zp \<Rightarrow>
                    if \<not> existsSync (disk w) zp then Json 404 ''ZIP file not found''
                    else SendFile zp (''hls-'' @ jid @ ''.zip'')))"

section \<open>Invariant of the registry\<close>

text \<open>The aggregate counters of a job agree with the statuses of its file entries.\<close>

definition countsOk :: "job \<Rightarrow> bool" where
  "countsOk j \<longleftrightarrow>
     completedFiles j = length (filter (\<lambda>f. status f = Completed) (files j)) \<and>
     failedFiles j = length (filter (\<lambda>f. status f = Failed) (files j))"

text \<open>
  The states of the service: it starts with an empty registry; the registry is changed by
  \<^verbatim>\<open>initJob\<close>, by \<^verbatim>\<open>updateFileStatus\<close>, by the assignments with which \<^verbatim>\<open>transcode\<close> settles
  the job (status, archive path, error, completion time) and by \<^verbatim>\<open>cleanupJob\<close>; every
  other step changes the disk or the trace only.
\<close>

inductive reachable :: "world \<Rightarrow> bool" where
  start: "jobs w = [] \<Longrightarrow> reachable w"
| init: "reachable w \<Longrightarrow> reachable (snd (initJob now jid fs w))"
| update: "reachable w \<Longrightarrow> reachable (updateFileStatus jid fileName upd w)"
| settle: "reachable w \<Longrightarrow> map_of (jobs w) jid = Some j \<Longrightarrow>
     reachable (snd (storeJob jid (j\<lparr> zipPath := z, jobStatus := s, jobError := er,
                                       completedAt := c \<rparr>) w))"
| cleanup: "reachable w \<Longrightarrow> reachable (cleanupJob jid w)"
| other: "reachable w \<Longrightarrow> jobs w' = jobs w \<Longrightarrow> reachable w'"

section \<open>Vocabulary of the properties\<close>

text \<open>The invocation of the encoder for one entry of the ladder, as the trace shows it.\<close>

definition encoderCall :: "string \<Rightarrow> fspath \<Rightarrow> variant \<Rightarrow> event" where
  "encoderCall inputPath hlsDir v =
     Spawn ''ffmpeg'' (ffmpegArgs inputPath (path_join hlsDir (vname v)) (bitrate v))"

text \<open>The package directory and the top-level manifest of a source file.\<close>

definition packageDir :: "fspath \<Rightarrow> string \<Rightarrow> fspath" where
  "packageDir outputDir fileName = path_join outputDir (basename fileName ''.mp3'')"

definition manifestPath :: "fspath \<Rightarrow> string \<Rightarrow> fspath" where
  "manifestPath outputDir fileName = packageDir outputDir fileName @ [''master.m3u8'']"


text \<open>
  The state in which \<^verbatim>\<open>transcode\<close> leaves its file loop, and what the archiving step does in
  that state.
\<close>

definition afterLoop :: "env \<Rightarrow> string \<Rightarrow> upload list \<Rightarrow> world \<Rightarrow> world" where
  "afterLoop e jid fs w =
     fileLoop e jid (path_join TEMP_DIR jid) fs (snd (initJob (startTime e) jid fs w))"

definition archiveOutcome :: "env \<Rightarrow> string \<Rightarrow> upload list \<Rightarrow> world \<Rightarrow> js_error + fspath" where
  "archiveOutcome e jid fs w =
     fst (createZipArchive e jid (path_join TEMP_DIR jid) (afterLoop e jid fs w))"

text \<open>A job whose entries are \<open>fs\<close> and whose counters are counted from them.\<close>

definition withFiles :: "job \<Rightarrow> file_entry list \<Rightarrow> job" where
  "withFiles j fs =
     j\<lparr> files := fs, completedFiles := countStatus Completed fs,
        failedFiles := countStatus Failed fs \<rparr>"

text \<open>The test of the sweep: the age of the job exceeds the threshold (in minutes).\<close>

definition expired :: "int \<Rightarrow> int \<Rightarrow> job \<Rightarrow> bool" where
  "expired now maxAgeMinutes j \<longleftrightarrow> now - startedAt j > maxAgeMinutes * 60 * 1000"

fun isArchive :: "event \<Rightarrow> bool" where
  "isArchive (Archive zp items) = True"
| "isArchive (Spawn cmd args) = False"
| "isArchive (WriteFile p) = False"

section \<open>Sample inputs\<close>

text \<open>
  A state with an empty registry and the job root on disk; the same state after the
  upload layer has stored two files in the directory of a job \<^verbatim>\<open>j\<close>; and an environment in
  which the encoder rejects the second upload and produces one segment for any other
  input.
\<close>

definition emptyWorld :: world where
  "emptyWorld = \<lparr> jobs = [], disk = [([''tmp''], Dir), ([''tmp'', ''hls-jobs''], Dir)],
                  trace = [] \<rparr>"

definition jobDirJ :: fspath where
  "jobDirJ = [''tmp'', ''hls-jobs'', ''j'']"

definition uploadedWorld :: world where
  "uploadedWorld =
     \<lparr> jobs = [],
       disk = [([''tmp''], Dir), ([''tmp'', ''hls-jobs''], Dir),
               ([''tmp'', ''hls-jobs'', ''j''], Dir),
               ([''tmp'', ''hls-jobs'', ''j'', ''a.mp3''], File ''ID3 a''),
               ([''tmp'', ''hls-jobs'', ''j'', ''b.mp3''], File ''ID3 b'')],
       trace = [] \<rparr>"

definition trackA :: upload where
  "trackA = \<lparr> originalName = ''a.mp3'', path = ''/tmp/hls-jobs/j/a.mp3'', fileSize = 5 \<rparr>"

definition trackB :: upload where
  "trackB = \<lparr> originalName = ''b.mp3'', path = ''/tmp/hls-jobs/j/b.mp3'', fileSize = 5 \<rparr>"

definition sampleEncoder :: "fsys \<Rightarrow> string list \<Rightarrow> proc_result" where
  "sampleEncoder d args =
     (if args ! 1 = ''/tmp/hls-jobs/j/b.mp3'' then Closed (Some 1) ''bad input'' []
      else Closed (Some 0) [] [(''index.m3u8'', ''#EXTM3U''), (''segment_000.ts'', ''s0'')])"

definition sampleEnv :: env where
  "sampleEnv = \<lparr> ffmpeg = sampleEncoder, archiver = (\<lambda>d zp items. Inr ''PK''),
                 startTime = 1000, endTime = 2000 \<rparr>"

definition brokenArchiveEnv :: env where
  "brokenArchiveEnv = \<lparr> ffmpeg = sampleEncoder, archiver = (\<lambda>d zp items. Inl ''write EIO''),
                        startTime = 1000, endTime = 2000 \<rparr>"

text \<open>What the build of the package of \<^verbatim>\<open>a.mp3\<close> adds to the disk, and what it returns.\<close>

definition packageA :: fsys where
  "packageA =
     [([''tmp'', ''hls-jobs'', ''j'', ''a''], Dir),
      ([''tmp'', ''hls-jobs'', ''j'', ''a'', ''low''], Dir),
      ([''tmp'', ''hls-jobs'', ''j'', ''a'', ''medium''], Dir),
      ([''tmp'', ''hls-jobs'', ''j'', ''a'', ''high''], Dir),
      ([''tmp'', ''hls-jobs'', ''j'', ''a'', ''premium''], Dir),
      ([''tmp'', ''hls-jobs'', ''j'', ''a'', ''low'', ''index.m3u8''], File ''#EXTM3U''),
      ([''tmp'', ''hls-jobs'', ''j'', ''a'', ''low'', ''segment_000.ts''], File ''s0''),
      ([''tmp'', ''hls-jobs'', ''j'', ''a'', ''medium'', ''index.m3u8''], File ''#EXTM3U''),
      ([''tmp'', ''hls-jobs'', ''j'', ''a'', ''medium'', ''segment_000.ts''], File ''s0''),
      ([''tmp'', ''hls-jobs'', ''j'', ''a'', ''high'', ''index.m3u8''], File ''#EXTM3U''),
      ([''tmp'', ''hls-jobs'', ''j'', ''a'', ''high'', ''segment_000.ts''], File ''s0''),
      ([''tmp'', ''hls-jobs'', ''j'', ''a'', ''premium'', ''index.m3u8''], File ''#EXTM3U''),
      ([''tmp'', ''hls-jobs'', ''j'', ''a'', ''premium'', ''segment_000.ts''], File ''s0''),
      ([''tmp'', ''hls-jobs'', ''j'', ''a'', ''master.m3u8''], File generateMasterPlaylist)]"

definition pkA :: package where
  "pkA = \<lparr> pk_success = True, pk_hlsFolder = ''a'', pk_segmentCount = 4,
           pk_hlsDir = [''tmp'', ''hls-jobs'', ''j'', ''a''],
           pk_variants =
             [\<lparr> vi_name = ''low'', vi_bitrate = Some 32, vi_bandwidth = 48000,
                vi_segmentCount = 1 \<rparr>,
              \<lparr> vi_name = ''medium'', vi_bitrate = Some 64, vi_bandwidth = 96000,
                vi_segmentCount = 1 \<rparr>,
              \<lparr> vi_name = ''high'', vi_bitrate = Some 96, vi_bandwidth = 144000,
                vi_segmentCount = 1 \<rparr>,
              \<lparr> vi_name = ''premium'', vi_bitrate = Some 128, vi_bandwidth = 192000,
                vi_segmentCount = 1 \<rparr>],
           pk_isMultiBitrate = True \<rparr>"

text \<open>The directories that the failed build of \<^verbatim>\<open>b.mp3\<close> leaves behind, and its error.\<close>

definition dirsB :: fsys where
  "dirsB =
     [([''tmp'', ''hls-jobs'', ''j'', ''b''], Dir),
      ([''tmp'', ''hls-jobs'', ''j'', ''b'', ''low''], Dir),
      ([''tmp'', ''hls-jobs'', ''j'', ''b'', ''medium''], Dir),
      ([''tmp'', ''hls-jobs'', ''j'', ''b'', ''high''], Dir),
      ([''tmp'', ''hls-jobs'', ''j'', ''b'', ''premium''], Dir)]"

definition errB :: js_error where
  "errB = Error ''FFmpeg exited with code 1: bad input''"

text \<open>The entries of the job \<^verbatim>\<open>j\<close> for the two uploads after their builds.\<close>

definition entryA :: file_entry where
  "entryA = \<lparr> name = ''a.mp3'', status = Completed, hlsFolder = Some ''a'', segmentCount = 4,
              error = None \<rparr>"

definition entryB :: file_entry where
  "entryB = \<lparr> name = ''b.mp3'', status = Failed, hlsFolder = None, segmentCount = 0,
              error = Some ''FFmpeg exited with code 1: bad input'' \<rparr>"

definition jobAfterLoop :: "file_entry list \<Rightarrow> job" where
  "jobAfterLoop fs =
     \<lparr> jobId = ''j'', jobStatus = JobProcessing, startedAt = 1000, files = fs,
       completedFiles = length (filter (\<lambda>f. status f = Completed) fs),
       failedFiles = length (filter (\<lambda>f. status f = Failed) fs),
       zipPath = None, jobError = None, completedAt = None \<rparr>"

text \<open>
  A registry with a job started at time 0 and one started 50 minutes later, both still
  processing, each with its directory and upload on disk.
\<close>

definition sweepWorld :: world where
  "sweepWorld =
     \<lparr> jobs = [(''old'', fst (initJob 0 ''old'' [trackA] emptyWorld)),
               (''new'', fst (initJob 3000000 ''new'' [trackA] emptyWorld))],
       disk = [([''tmp''], Dir), ([''tmp'', ''hls-jobs''], Dir),
               ([''tmp'', ''hls-jobs'', ''old''], Dir),
               ([''tmp'', ''hls-jobs'', ''old'', ''a.mp3''], File ''ID3 a''),
               ([''tmp'', ''hls-jobs'', ''new''], Dir),
               ([''tmp'', ''hls-jobs'', ''new'', ''a.mp3''], File ''ID3 a'')],
       trace = [] \<rparr>"

definition completedUpdate :: updates where
  "completedUpdate = \<lparr> u_status = Some Completed, u_hlsFolder = Some ''a'',
                       u_segmentCount = Some 4, u_error = None \<rparr>"

section \<open>The registry: counters, creation, update\<close>

lemma filter_initial_entries:
  "s \<noteq> Pending \<Longrightarrow>
   filter (\<lambda>f. status f = s)
     (map (\<lambda>f. \<lparr> name = originalName f, status = Pending, hlsFolder = None,
                  segmentCount = 0, error = None \<rparr>) fs) = []"
  by (induction fs) auto

lemma initJob_fst:
  "fst (initJob now jid fs w) =
     \<lparr> jobId = jid, jobStatus = JobProcessing, startedAt = now,
       files = map (\<lambda>f. \<lparr> name = originalName f, status = Pending, hlsFolder = None,
                            segmentCount = 0, error = None \<rparr>) fs,
       completedFiles = 0, failedFiles = 0, zipPath = None, jobError = None,
       completedAt = None \<rparr>"
  by (simp add: initJob_def Let_def)

lemma initJob_snd:
  "snd (initJob now jid fs w) =
     w\<lparr> jobs := AList.update jid (fst (initJob now jid fs w)) (jobs w) \<rparr>"
  by (simp add: initJob_def Let_def)

lemma countsOk_initJob: "countsOk (fst (initJob now jid fs w))"
  by (simp add: initJob_fst countsOk_def filter_initial_entries)

lemma jobs_updateFileStatus:
  "map_of (jobs (updateFileStatus jid n u w)) =
     (case map_of (jobs w) jid of
        None \<Rightarrow> map_of (jobs w)
      | Some j \<Rightarrow>
          (map_of (jobs w))(jid \<mapsto>
             j\<lparr> files := assignFirst n u (files j),
                completedFiles := countStatus Completed (assignFirst n u (files j)),
                failedFiles := countStatus Failed (assignFirst n u (files j)) \<rparr>))"
  by (simp add: updateFileStatus_def Let_def update_conv' split: option.split)

lemma jobs_storeJob:
  "map_of (jobs (snd (storeJob jid j w))) =
     (if map_of (jobs w) jid = None then map_of (jobs w) else (map_of (jobs w))(jid \<mapsto> j))"
  by (simp add: storeJob_def update_conv')

lemma jobs_cleanupJob: "jobs (cleanupJob jid w) = AList.delete jid (jobs w)"
  by (simp add: cleanupJob_def Let_def)

lemma reachable_countsOk:
  "reachable w \<Longrightarrow> map_of (jobs w) jid = Some j \<Longrightarrow> countsOk j"
proof (induction arbitrary: jid j rule: reachable.induct)
  case (start w)
  then show ?case by simp
next
  case (init w now i fs)
  then show ?case
    by (auto simp: initJob_snd update_conv' countsOk_initJob split: if_splits)
next
  case (update w i fileName upd)
  then show ?case
    by (auto simp: jobs_updateFileStatus countsOk_def countStatus_def
             split: option.splits if_splits)
next
  case (settle w i j0 z s er c)
  from settle.IH [OF settle.hyps(2)] have "countsOk j0" .
  with settle.prems settle.IH show ?case
    by (auto simp: jobs_storeJob countsOk_def split: if_splits)
next
  case (cleanup w i)
  then show ?case
    by (auto simp: jobs_cleanupJob delete_conv' split: if_splits)
next
  case (other w w')
  then show ?case by simp
qed

lemma completed_plus_failed:
  "length (filter (\<lambda>f. status f = Completed) fs) + length (filter (\<lambda>f. status f = Failed) fs)
     = length (filter (\<lambda>f. status f \<in> {Completed, Failed}) fs)"
  by (induction fs) auto

text \<open>
  C1. In every state of the service and for every job in the registry, \<^verbatim>\<open>completedFiles\<close> is
  the number of file entries with status \<^verbatim>\<open>completed\<close>, \<^verbatim>\<open>failedFiles\<close> the number with status
  \<^verbatim>\<open>failed\<close>; their sum is the number of entries whose status is one of the two and is at
  most the number of files. (\<^verbatim>\<open>initJob\<close> and \<^verbatim>\<open>updateFileStatus\<close> are steps of \<open>reachable\<close>, so
  this holds after each of them; \<open>transcode_reachable\<close>, \<open>transcodeSync_reachable\<close> and
  \<open>cleanupOldJobs_reachable\<close> below show that the exported operations lead from such a
  state to such a state.)
\<close>

theorem counters_match_statuses:
  assumes "reachable w" and "getJobStatus w jid = Some j"
  shows "completedFiles j = length (filter (\<lambda>f. status f = Completed) (files j)) \<and>
         failedFiles j = length (filter (\<lambda>f. status f = Failed) (files j)) \<and>
         completedFiles j + failedFiles j
           = length (filter (\<lambda>f. status f \<in> {Completed, Failed}) (files j)) \<and>
         completedFiles j + failedFiles j \<le> length (files j)"
proof -
  from assms have "countsOk j"
    using reachable_countsOk by (simp add: getJobStatus_def)
  then have c: "completedFiles j = length (filter (\<lambda>f. status f = Completed) (files j))"
    and f: "failedFiles j = length (filter (\<lambda>f. status f = Failed) (files j))"
    by (simp_all add: countsOk_def)
  have sum: "completedFiles j + failedFiles j
           = length (filter (\<lambda>f. status f \<in> {Completed, Failed}) (files j))"
    using c f completed_plus_failed by simp
  have "length (filter (\<lambda>f. status f \<in> {Completed, Failed}) (files j)) \<le> length (files j)"
    by (rule length_filter_le)
  with c f sum show ?thesis by simp
qed

theorem counters_match_statuses_witness:
  "reachable (updateFileStatus ''j'' ''a.mp3'' completedUpdate
                (snd (initJob 1000 ''j'' [trackA, trackB] emptyWorld))) \<and>
   (\<exists>j. getJobStatus (updateFileStatus ''j'' ''a.mp3'' completedUpdate
                        (snd (initJob 1000 ''j'' [trackA, trackB] emptyWorld))) ''j'' = Some j \<and>
        map status (files j) = [Completed, Pending] \<and>
        completedFiles j = 1 \<and> failedFiles j = 0 \<and>
        completedFiles j + failedFiles j
          = length (filter (\<lambda>f. status f \<in> {Completed, Failed}) (files j)) \<and>
        completedFiles j + failedFiles j \<le> length (files j))"
proof -
  let ?w = "updateFileStatus ''j'' ''a.mp3'' completedUpdate
              (snd (initJob 1000 ''j'' [trackA, trackB] emptyWorld))"
  have r: "reachable ?w"
    by (intro reachable.update reachable.init reachable.start) (simp add: emptyWorld_def)
  obtain j where g: "getJobStatus ?w ''j'' = Some j"
    and st: "map status (files j) = [Completed, Pending]"
    by (simp add: getJobStatus_def jobs_updateFileStatus initJob_snd initJob_fst update_conv'
          trackA_def trackB_def completedUpdate_def assign_def)
  from counters_match_statuses [OF r g] st have
    "completedFiles j = 1 \<and> failedFiles j = 0 \<and>
     completedFiles j + failedFiles j
       = length (filter (\<lambda>f. status f \<in> {Completed, Failed}) (files j)) \<and>
     completedFiles j + failedFiles j \<le> length (files j)"
    by (cases "files j") (auto split: if_splits)
  with r g st show ?thesis by (intro conjI exI [of _ j]) simp_all
qed

lemma assignFirst_absent: "n \<notin> name ` set fs \<Longrightarrow> assignFirst n u fs = fs"
  by (induction fs) auto

lemma assignFirst_first:
  "n \<notin> name ` set pre \<Longrightarrow> name f = n \<Longrightarrow>
   assignFirst n u (pre @ f # post) = pre @ assign f u # post"
  by (induction pre) auto

lemma updateFileStatus_absent:
  "map_of (jobs w) jid = None \<Longrightarrow> updateFileStatus jid n u w = w"
  by (simp add: updateFileStatus_def)

lemma updateFileStatus_other:
  "other \<noteq> jid \<Longrightarrow>
   map_of (jobs (updateFileStatus jid n u w)) other = map_of (jobs w) other"
  by (simp add: jobs_updateFileStatus split: option.split)

lemma updateFileStatus_disk_trace:
  "disk (updateFileStatus jid n u w) = disk w \<and> trace (updateFileStatus jid n u w) = trace w"
  by (simp add: updateFileStatus_def Let_def split: option.split)

text \<open>
  C7. \<^verbatim>\<open>updateFileStatus\<close> leaves the whole state as it is when the registry has no job of
  that id (so a late update never brings a deleted job back). When the job is there but
  no entry has the name, every file entry stays as it is (the counters are recomputed
  from them). Otherwise the fields given are written into the first entry of that name
  (entries before it and after it, among them later entries of the same name, are left
  alone) and the two counters are recomputed from the new entries. Other jobs, the disk
  and the trace are never touched.
\<close>

theorem updateFileStatus_contract:
  "(getJobStatus w jid = None \<longrightarrow> updateFileStatus jid n u w = w) \<and>
   (\<forall>j. getJobStatus w jid = Some j \<and> n \<notin> name ` set (files j) \<longrightarrow>
        getJobStatus (updateFileStatus jid n u w) jid
          = Some (j\<lparr> files := files j,
                      completedFiles := length (filter (\<lambda>g. status g = Completed) (files j)),
                      failedFiles := length (filter (\<lambda>g. status g = Failed) (files j)) \<rparr>)) \<and>
   (\<forall>j pre f post.
        getJobStatus w jid = Some j \<and> files j = pre @ f # post \<and>
        n \<notin> name ` set pre \<and> name f = n \<longrightarrow>
        getJobStatus (updateFileStatus jid n u w) jid
          = Some (j\<lparr> files := pre @ assign f u # post,
                      completedFiles :=
                        length (filter (\<lambda>g. status g = Completed) (pre @ assign f u # post)),
                      failedFiles :=
                        length (filter (\<lambda>g. status g = Failed) (pre @ assign f u # post)) \<rparr>)) \<and>
   (\<forall>f. name (assign f u) = name f \<and>
        status (assign f u) = (case u_status u of None \<Rightarrow> status f | Some s \<Rightarrow> s) \<and>
        hlsFolder (assign f u) = (case u_hlsFolder u of None \<Rightarrow> hlsFolder f | Some h \<Rightarrow> Some h) \<and>
        segmentCount (assign f u)
          = (case u_segmentCount u of None \<Rightarrow> segmentCount f | Some c \<Rightarrow> c) \<and>
        error (assign f u) = (case u_error u of None \<Rightarrow> error f | Some m \<Rightarrow> Some m)) \<and>
   (\<forall>other. other \<noteq> jid \<longrightarrow>
        getJobStatus (updateFileStatus jid n u w) other = getJobStatus w other) \<and>
   disk (updateFileStatus jid n u w) = disk w \<and>
   trace (updateFileStatus jid n u w) = trace w"
proof (intro conjI allI impI)
  assume "getJobStatus w jid = None"
  then show "updateFileStatus jid n u w = w"
    by (simp add: getJobStatus_def updateFileStatus_absent)
next
  fix j
  assume "getJobStatus w jid = Some j \<and> n \<notin> name ` set (files j)"
  then show "getJobStatus (updateFileStatus jid n u w) jid
          = Some (j\<lparr> files := files j,
                      completedFiles := length (filter (\<lambda>g. status g = Completed) (files j)),
                      failedFiles := length (filter (\<lambda>g. status g = Failed) (files j)) \<rparr>)"
    by (simp add: getJobStatus_def jobs_updateFileStatus assignFirst_absent countStatus_def)
next
  fix j pre f post
  assume "getJobStatus w jid = Some j \<and> files j = pre @ f # post \<and>
        n \<notin> name ` set pre \<and> name f = n"
  then show "getJobStatus (updateFileStatus jid n u w) jid
          = Some (j\<lparr> files := pre @ assign f u # post,
                      completedFiles :=
                        length (filter (\<lambda>g. status g = Completed) (pre @ assign f u # post)),
                      failedFiles :=
                        length (filter (\<lambda>g. status g = Failed) (pre @ assign f u # post)) \<rparr>)"
    by (simp add: getJobStatus_def jobs_updateFileStatus assignFirst_first countStatus_def)
next
  fix other :: string
  assume "other \<noteq> jid"
  then show "getJobStatus (updateFileStatus jid n u w) other = getJobStatus w other"
    by (simp add: getJobStatus_def updateFileStatus_other)
qed (simp_all add: assign_def updateFileStatus_disk_trace)

text \<open>
  The three cases at work: an update for a job that is not in the registry; an update
  for a name that no entry has; an update for a name that two entries share, which
  reaches the first of them only.
\<close>

theorem updateFileStatus_contract_witness:
  "updateFileStatus ''gone'' ''a.mp3'' completedUpdate emptyWorld = emptyWorld \<and>
   map_option (map status \<circ> files)
     (getJobStatus (updateFileStatus ''j'' ''c.mp3'' completedUpdate
                      (snd (initJob 1000 ''j'' [trackA, trackA] emptyWorld))) ''j'')
     = Some [Pending, Pending] \<and>
   map_option (map status \<circ> files)
     (getJobStatus (updateFileStatus ''j'' ''a.mp3'' completedUpdate
                      (snd (initJob 1000 ''j'' [trackA, trackA] emptyWorld))) ''j'')
     = Some [Completed, Pending] \<and>
   map_option completedFiles
     (getJobStatus (updateFileStatus ''j'' ''a.mp3'' completedUpdate
                      (snd (initJob 1000 ''j'' [trackA, trackA] emptyWorld))) ''j'')
     = Some 1"
proof -
  let ?w = "snd (initJob 1000 ''j'' [trackA, trackA] emptyWorld)"
  let ?j = "fst (initJob 1000 ''j'' [trackA, trackA] emptyWorld)"
  let ?e = "\<lparr> name = ''a.mp3'', status = Pending, hlsFolder = None, segmentCount = 0,
              error = None \<rparr>"
  have none: "getJobStatus emptyWorld ''gone'' = None"
    by (simp add: getJobStatus_def emptyWorld_def)
  have some: "getJobStatus ?w ''j'' = Some ?j"
    by (simp add: getJobStatus_def initJob_snd update_conv')
  have fs: "files ?j = [] @ ?e # [?e]"
    by (simp add: initJob_fst trackA_def)
  have absent: "''c.mp3'' \<notin> name ` set (files ?j)"
    by (simp add: initJob_fst trackA_def)
  have first: "''a.mp3'' \<notin> name ` set ([] :: file_entry list)" "name ?e = ''a.mp3''"
    by simp_all
  from updateFileStatus_contract [of emptyWorld "''gone''" "''a.mp3''" completedUpdate,
         THEN conjunct1] none
  have 1: "updateFileStatus ''gone'' ''a.mp3'' completedUpdate emptyWorld = emptyWorld"
    by (rule mp)
  from updateFileStatus_contract [of ?w "''j''" "''c.mp3''" completedUpdate,
         THEN conjunct2, THEN conjunct1, rule_format, of ?j] some absent
  have 2: "map_option (map status \<circ> files)
             (getJobStatus (updateFileStatus ''j'' ''c.mp3'' completedUpdate ?w) ''j'')
           = Some [Pending, Pending]"
    by (simp add: initJob_fst trackA_def)
  from updateFileStatus_contract [of ?w "''j''" "''a.mp3''" completedUpdate,
         THEN conjunct2, THEN conjunct2, THEN conjunct1, rule_format, of ?j "[]" ?e "[?e]"]
       some fs first
  have 3: "getJobStatus (updateFileStatus ''j'' ''a.mp3'' completedUpdate ?w) ''j''
           = Some (?j\<lparr> files := [] @ assign ?e completedUpdate # [?e],
                      completedFiles :=
                        length (filter (\<lambda>g. status g = Completed)
                                  ([] @ assign ?e completedUpdate # [?e])),
                      failedFiles :=
                        length (filter (\<lambda>g. status g = Failed)
                                  ([] @ assign ?e completedUpdate # [?e])) \<rparr>)"
    by simp
  from 1 2 3 show ?thesis
    by (simp add: assign_def completedUpdate_def)
qed

lemma initJob_other:
  "other \<noteq> jid \<Longrightarrow>
   map_of (jobs (snd (initJob now jid fs w))) other = map_of (jobs w) other"
  by (simp add: initJob_snd update_conv')

text \<open>
  C4, as the specification states it, fails: \<^verbatim>\<open>initJob\<close> has no check for an id that is
  already in the registry. With the job \<^verbatim>\<open>j\<close> of \<^verbatim>\<open>a.mp3\<close> registered, a second \<^verbatim>\<open>initJob\<close> for
  \<^verbatim>\<open>j\<close> returns a new job for \<^verbatim>\<open>b.mp3\<close>, and the registry holds that one afterwards.
\<close>

theorem initJob_duplicate_counterexample:
  "getJobStatus (snd (initJob 1000 ''j'' [trackA] emptyWorld)) ''j''
     = Some (fst (initJob 1000 ''j'' [trackA] emptyWorld)) \<and>
   map name (files (fst (initJob 1000 ''j'' [trackA] emptyWorld))) = [''a.mp3''] \<and>
   map name (files (fst (initJob 5000 ''j'' [trackB]
                           (snd (initJob 1000 ''j'' [trackA] emptyWorld))))) = [''b.mp3''] \<and>
   getJobStatus (snd (initJob 5000 ''j'' [trackB] (snd (initJob 1000 ''j'' [trackA] emptyWorld))))
       ''j''
     \<noteq> Some (fst (initJob 1000 ''j'' [trackA] emptyWorld))"
  by (simp add: getJobStatus_def initJob_snd initJob_fst update_conv' trackA_def trackB_def)

text \<open>
  C4, amended. \<^verbatim>\<open>initJob\<close> never fails. For every id, in the registry or not, it stores and
  returns a job in status \<^verbatim>\<open>processing\<close> with one entry per file, in order, each \<^verbatim>\<open>pending\<close>,
  and with both counters zero; a job that the registry held under that id is replaced,
  and every other job is left as it is.
\<close>

theorem initJob_inserts:
  "getJobStatus (snd (initJob now jid fs w)) jid = Some (fst (initJob now jid fs w)) \<and>
   jobId (fst (initJob now jid fs w)) = jid \<and>
   jobStatus (fst (initJob now jid fs w)) = JobProcessing \<and>
   map name (files (fst (initJob now jid fs w))) = map originalName fs \<and>
   list_all (\<lambda>f. status f = Pending) (files (fst (initJob now jid fs w))) \<and>
   completedFiles (fst (initJob now jid fs w)) = 0 \<and>
   failedFiles (fst (initJob now jid fs w)) = 0 \<and>
   (\<forall>other. other \<noteq> jid \<longrightarrow>
      getJobStatus (snd (initJob now jid fs w)) other = getJobStatus w other)"
proof -
  have "list_all (\<lambda>f. status f = Pending) (files (fst (initJob now jid fs w)))"
    by (simp add: initJob_fst list_all_iff)
  moreover have "map name (files (fst (initJob now jid fs w))) = map originalName fs"
    by (simp add: initJob_fst comp_def)
  ultimately show ?thesis
    by (simp add: getJobStatus_def initJob_other) (simp add: initJob_snd update_conv' initJob_fst)
qed

theorem initJob_inserts_witness:
  "map_option (map status \<circ> files)
     (getJobStatus (snd (initJob 5000 ''j'' [trackB, trackA]
                           (snd (initJob 1000 ''j'' [trackA] emptyWorld)))) ''j'')
     = Some [Pending, Pending] \<and>
   getJobStatus (snd (initJob 5000 ''k'' [trackB] (snd (initJob 1000 ''j'' [trackA] emptyWorld))))
       ''j''
     = Some (fst (initJob 1000 ''j'' [trackA] emptyWorld))"
proof -
  let ?w = "snd (initJob 1000 ''j'' [trackA] emptyWorld)"
  have ne: "''j'' \<noteq> ''k''" by simp
  have g: "getJobStatus ?w ''j'' = Some (fst (initJob 1000 ''j'' [trackA] emptyWorld))"
    by (simp add: getJobStatus_def initJob_snd update_conv')
  from initJob_inserts [of 5000 "''j''" "[trackB, trackA]" ?w]
  have 1: "map_option (map status \<circ> files)
             (getJobStatus (snd (initJob 5000 ''j'' [trackB, trackA] ?w)) ''j'')
           = Some [Pending, Pending]"
    by (simp add: initJob_fst)
  from initJob_inserts [of 5000 "''k''" "[trackB]" ?w] ne g
  have 2: "getJobStatus (snd (initJob 5000 ''k'' [trackB] ?w)) ''j''
           = Some (fst (initJob 1000 ''j'' [trackA] emptyWorld))"
    by simp
  from 1 2 show ?thesis by simp
qed

section \<open>Paths and the disk\<close>

lemma splitSlash_plain: "CHR ''/'' \<notin> set s \<Longrightarrow> splitSlash acc s = [rev acc @ s]"
  by (induction s arbitrary: acc) auto

lemma path_join_plain: "plainSegment s \<Longrightarrow> path_join p s = p @ [s]"
  by (simp add: plainSegment_def path_join_def splitSlash_plain joinSegment_def)

lemma plain_ladder:
  "v \<in> set BITRATE_LADDER \<Longrightarrow> plainSegment (vname v) \<and> vname v \<noteq> ''master.m3u8''"
  by (auto simp: BITRATE_LADDER_def plainSegment_def)

lemma plain_manifest: "plainSegment ''master.m3u8''"
  by (simp add: plainSegment_def)

lemma map_of_writeOutputs:
  "q = [] \<or> butlast q \<noteq> od \<Longrightarrow> map_of (writeOutputs od outs d) q = map_of d q"
  unfolding writeOutputs_def
  by (induction outs arbitrary: d) (auto simp: update_conv')

lemma mkdirFrom_other:
  "mkdirFrom pre ss d = Inr d' \<Longrightarrow> \<not> prefix q (pre @ ss) \<Longrightarrow> map_of d' q = map_of d q"
proof (induction ss arbitrary: pre d)
  case Nil
  then show ?case by simp
next
  case (Cons s ss)
  from Cons.prems(2) have nq: "q \<noteq> pre @ [s]" by auto
  from Cons.prems(2) have np: "\<not> prefix q ((pre @ [s]) @ ss)" by simp
  show ?case
  proof (cases "map_of d (pre @ [s])")
    case None
    with Cons.prems(1) have "mkdirFrom (pre @ [s]) ss (AList.update (pre @ [s]) Dir d) = Inr d'"
      by simp
    from Cons.IH [OF this np] nq show ?thesis by (simp add: update_conv')
  next
    case (Some n)
    with Cons.prems(1) have "mkdirFrom (pre @ [s]) ss d = Inr d'"
      by (cases n) simp_all
    from Cons.IH [OF this np] show ?thesis .
  qed
qed

lemma mkdirSync_other:
  "mkdirSync d p = Inr d' \<Longrightarrow> \<not> prefix q p \<Longrightarrow> map_of d' q = map_of d q"
  using mkdirFrom_other [of "[]" p d d' q] by (simp add: mkdirSync_def)

section \<open>What the steps of a package build change\<close>

lemma transcodeVariant_jobs: "jobs (snd (transcodeVariant e ip od br w)) = jobs w"
  by (simp add: transcodeVariant_def Let_def split: proc_result.split sum.split)

lemma transcodeVariant_trace:
  "trace (snd (transcodeVariant e ip od br w)) = trace w @ [Spawn ''ffmpeg'' (ffmpegArgs ip od br)]"
  by (simp add: transcodeVariant_def Let_def split: proc_result.split sum.split)

lemma transcodeVariant_disk:
  "q = [] \<or> butlast q \<noteq> od \<Longrightarrow>
   map_of (disk (snd (transcodeVariant e ip od br w))) q = map_of (disk w) q"
  by (simp add: transcodeVariant_def Let_def map_of_writeOutputs
           split: proc_result.split sum.split)

lemma mkdirLadder_jobs_trace:
  "jobs (snd (mkdirLadder h vs w)) = jobs w \<and> trace (snd (mkdirLadder h vs w)) = trace w"
  by (induction vs arbitrary: w) (auto split: sum.split)

lemma mkdirLadder_disk:
  "\<forall>v \<in> set vs. \<not> prefix q (path_join h (vname v)) \<Longrightarrow>
   map_of (disk (snd (mkdirLadder h vs w))) q = map_of (disk w) q"
proof (induction vs arbitrary: w)
  case Nil
  then show ?case by simp
next
  case (Cons v vs)
  show ?case
  proof (cases "mkdirSync (disk w) (path_join h (vname v))")
    case (Inl err)
    then show ?thesis by simp
  next
    case (Inr d)
    from Cons.prems have "\<not> prefix q (path_join h (vname v))" by simp
    from mkdirSync_other [OF Inr this] have "map_of d q = map_of (disk w) q" .
    moreover from Cons.prems have "\<forall>v \<in> set vs. \<not> prefix q (path_join h (vname v))" by simp
    from Cons.IH [OF this, of "w\<lparr> disk := d \<rparr>"]
    have "map_of (disk (snd (mkdirLadder h vs (w\<lparr> disk := d \<rparr>)))) q = map_of d q" by simp
    ultimately show ?thesis using Inr by simp
  qed
qed

lemma encodeLadder_jobs: "jobs (snd (encodeLadder e ip h vs acc tot w)) = jobs w"
proof (induction vs arbitrary: acc tot w)
  case Nil
  then show ?case by simp
next
  case (Cons v vs)
  show ?case
  proof (cases "transcodeVariant e ip (path_join h (vname v)) (bitrate v) w")
    case (Pair r w')
    with transcodeVariant_jobs [of e ip "path_join h (vname v)" "bitrate v" w]
    have "jobs w' = jobs w" by simp
    with Pair Cons.IH show ?thesis by (cases r) simp_all
  qed
qed

lemma encodeLadder_disk:
  "\<forall>v \<in> set vs. q = [] \<or> butlast q \<noteq> path_join h (vname v) \<Longrightarrow>
   map_of (disk (snd (encodeLadder e ip h vs acc tot w))) q = map_of (disk w) q"
proof (induction vs arbitrary: acc tot w)
  case Nil
  then show ?case by simp
next
  case (Cons v vs)
  show ?case
  proof (cases "transcodeVariant e ip (path_join h (vname v)) (bitrate v) w")
    case (Pair r w')
    from Cons.prems have "q = [] \<or> butlast q \<noteq> path_join h (vname v)" by auto
    from transcodeVariant_disk [OF this, of e ip "bitrate v" w] Pair
    have d: "map_of (disk w') q = map_of (disk w) q" by simp
    from Cons.prems have "\<forall>v \<in> set vs. q = [] \<or> butlast q \<noteq> path_join h (vname v)" by auto
    from Cons.IH [OF this] d Pair show ?thesis by (cases r) simp_all
  qed
qed

text \<open>
  The trace of the second loop: when it completes, one invocation per entry, in the order
  of the ladder; when an encode is rejected, the invocations up to the rejected one.
\<close>

lemma encodeLadder_trace_ok:
  "encodeLadder e ip h vs acc tot w = (Inr r, w') \<Longrightarrow>
   trace w' = trace w @ map (encoderCall ip h) vs"
proof (induction vs arbitrary: acc tot w)
  case Nil
  then show ?case by simp
next
  case (Cons v vs)
  show ?case
  proof (cases "transcodeVariant e ip (path_join h (vname v)) (bitrate v) w")
    case (Pair x w1)
    from transcodeVariant_trace [of e ip "path_join h (vname v)" "bitrate v" w] Pair
    have t: "trace w1 = trace w @ [encoderCall ip h v]" by (simp add: encoderCall_def)
    show ?thesis
    proof (cases x)
      case (Inl err)
      with Pair Cons.prems show ?thesis by simp
    next
      case (Inr n)
      with Pair Cons.prems Cons.IH [of _ _ w1] t show ?thesis by simp
    qed
  qed
qed

lemma encodeLadder_trace_fail:
  "encodeLadder e ip h vs acc tot w = (Inl err, w') \<Longrightarrow>
   \<exists>k. 0 < k \<and> k \<le> length vs \<and> trace w' = trace w @ map (encoderCall ip h) (take k vs)"
proof (induction vs arbitrary: acc tot w)
  case Nil
  then show ?case by simp
next
  case (Cons v vs)
  show ?case
  proof (cases "transcodeVariant e ip (path_join h (vname v)) (bitrate v) w")
    case (Pair x w1)
    from transcodeVariant_trace [of e ip "path_join h (vname v)" "bitrate v" w] Pair
    have t: "trace w1 = trace w @ [encoderCall ip h v]" by (simp add: encoderCall_def)
    show ?thesis
    proof (cases x)
      case (Inl err')
      with Pair Cons.prems t have "trace w' = trace w @ map (encoderCall ip h) (take 1 (v # vs))"
        by simp
      then show ?thesis by (intro exI [of _ 1]) simp
    next
      case (Inr n)
      with Pair Cons.prems have "encodeLadder e ip h vs
            (acc @ [\<lparr> vi_name = vname v, vi_bitrate = parseInt (bitrate v),
                      vi_bandwidth = bandwidth v, vi_segmentCount = n \<rparr>]) (tot + n) w1
          = (Inl err, w')" by simp
      from Cons.IH [OF this] obtain k where
        k: "0 < k" "k \<le> length vs" "trace w' = trace w1 @ map (encoderCall ip h) (take k vs)"
        by blast
      with t have "trace w' = trace w @ map (encoderCall ip h) (take (Suc k) (v # vs))"
        by simp
      with k show ?thesis by (intro exI [of _ "Suc k"]) simp
    qed
  qed
qed


text \<open>What the second loop returns: one record per entry, and the sum of their counts.\<close>

lemma encodeLadder_result:
  "encodeLadder e ip h vs acc tot w = (Inr (acc', tot'), w') \<Longrightarrow>
   map vi_name acc' = map vi_name acc @ map vname vs \<and>
   map vi_bitrate acc' = map vi_bitrate acc @ map (parseInt \<circ> bitrate) vs \<and>
   map vi_bandwidth acc' = map vi_bandwidth acc @ map bandwidth vs \<and>
   tot' + sum_list (map vi_segmentCount acc) = tot + sum_list (map vi_segmentCount acc')"
proof (induction vs arbitrary: acc tot w)
  case Nil
  then show ?case by simp
next
  case (Cons v vs)
  show ?case
  proof (cases "transcodeVariant e ip (path_join h (vname v)) (bitrate v) w")
    case (Pair x w1)
    show ?thesis
    proof (cases x)
      case (Inl err)
      with Pair Cons.prems show ?thesis by simp
    next
      case (Inr n)
      with Pair Cons.prems have "encodeLadder e ip h vs
            (acc @ [\<lparr> vi_name = vname v, vi_bitrate = parseInt (bitrate v),
                      vi_bandwidth = bandwidth v, vi_segmentCount = n \<rparr>]) (tot + n) w1
          = (Inr (acc', tot'), w')" by simp
      from Cons.IH [OF this] show ?thesis by simp
    qed
  qed
qed

section \<open>Package Builder: one file\<close>

lemma manifest_join: "path_join (packageDir od fn) ''master.m3u8'' = manifestPath od fn"
  by (simp add: manifestPath_def path_join_plain plain_manifest)

lemma transcodeFile_jobs: "jobs (snd (transcodeFile e ip od fn w)) = jobs w"
proof -
  obtain r1 w1 where m: "mkdirLadder (packageDir od fn) BITRATE_LADDER w = (r1, w1)"
    by (cases "mkdirLadder (packageDir od fn) BITRATE_LADDER w")
  obtain r2 w2 where c: "encodeLadder e ip (packageDir od fn) BITRATE_LADDER [] 0 w1 = (r2, w2)"
    by (cases "encodeLadder e ip (packageDir od fn) BITRATE_LADDER [] 0 w1")
  from m mkdirLadder_jobs_trace [of "packageDir od fn" BITRATE_LADDER w]
  have j1: "jobs w1 = jobs w" by simp
  from c encodeLadder_jobs [of e ip "packageDir od fn" BITRATE_LADDER "[]" 0 w1]
  have j2: "jobs w2 = jobs w1" by simp
  from m c j1 j2 show ?thesis
    by (simp add: transcodeFile_def Let_def packageDir_def [symmetric] split: sum.split prod.split)
qed

lemma transcodeFile_ok:
  assumes "transcodeFile e ip od fn w = (Inr pk, w')"
  shows "trace w' = trace w @ map (encoderCall ip (packageDir od fn)) BITRATE_LADDER
                      @ [WriteFile (manifestPath od fn)]"
    and "map_of (disk w') (manifestPath od fn) = Some (File generateMasterPlaylist)"
    and "pk_hlsFolder pk = basename fn ''.mp3''"
    and "pk_hlsDir pk = packageDir od fn"
    and "map vi_name (pk_variants pk) = map vname BITRATE_LADDER"
    and "map vi_bitrate (pk_variants pk) = map (parseInt \<circ> bitrate) BITRATE_LADDER"
    and "map vi_bandwidth (pk_variants pk) = map bandwidth BITRATE_LADDER"
    and "pk_segmentCount pk = sum_list (map vi_segmentCount (pk_variants pk))"
proof -
  let ?h = "packageDir od fn"
  obtain r1 w1 where m: "mkdirLadder ?h BITRATE_LADDER w = (r1, w1)"
    by (cases "mkdirLadder ?h BITRATE_LADDER w")
  obtain r2 w2 where c: "encodeLadder e ip ?h BITRATE_LADDER [] 0 w1 = (r2, w2)"
    by (cases "encodeLadder e ip ?h BITRATE_LADDER [] 0 w1")
  from assms m obtain u where r1: "r1 = Inr u"
    by (cases r1) (simp_all add: transcodeFile_def Let_def packageDir_def [symmetric])
  from assms m c r1 obtain vs tot where r2: "r2 = Inr (vs, tot)"
    by (cases r2) (auto simp: transcodeFile_def Let_def packageDir_def [symmetric])
  from assms m c r1 r2 obtain d where
    wr: "writeFileSync (disk w2) (manifestPath od fn) generateMasterPlaylist = Inr d"
    and pk: "pk = \<lparr> pk_success = True, pk_hlsFolder = basename fn ''.mp3'',
                     pk_segmentCount = tot, pk_hlsDir = ?h, pk_variants = vs,
                     pk_isMultiBitrate = True \<rparr>"
    and w': "w' = w2\<lparr> disk := d, trace := trace w2 @ [WriteFile (manifestPath od fn)] \<rparr>"
    by (cases "writeFileSync (disk w2) (manifestPath od fn) generateMasterPlaylist")
       (auto simp: transcodeFile_def Let_def packageDir_def [symmetric] manifest_join)
  from m mkdirLadder_jobs_trace [of ?h BITRATE_LADDER w] have t1: "trace w1 = trace w" by simp
  from c r2 have t2: "trace w2 = trace w1 @ map (encoderCall ip ?h) BITRATE_LADDER"
    by (simp add: encodeLadder_trace_ok)
  from t1 t2 w' show "trace w' = trace w @ map (encoderCall ip ?h) BITRATE_LADDER
                      @ [WriteFile (manifestPath od fn)]" by simp
  from wr have "d = AList.update (manifestPath od fn) (File generateMasterPlaylist) (disk w2)"
    by (simp add: writeFileSync_def split: if_splits)
  with w' show "map_of (disk w') (manifestPath od fn) = Some (File generateMasterPlaylist)"
    by (simp add: update_conv')
  from pk show "pk_hlsFolder pk = basename fn ''.mp3''" and "pk_hlsDir pk = ?h" by simp_all
  from c r2 have res: "map vi_name vs = map vi_name [] @ map vname BITRATE_LADDER \<and>
     map vi_bitrate vs = map vi_bitrate [] @ map (parseInt \<circ> bitrate) BITRATE_LADDER \<and>
     map vi_bandwidth vs = map vi_bandwidth [] @ map bandwidth BITRATE_LADDER \<and>
     tot + sum_list (map vi_segmentCount []) = 0 + sum_list (map vi_segmentCount vs)"
    using encodeLadder_result [of e ip ?h BITRATE_LADDER "[]" 0 w1 vs tot w2] by simp
  with pk show "map vi_name (pk_variants pk) = map vname BITRATE_LADDER"
    and "map vi_bitrate (pk_variants pk) = map (parseInt \<circ> bitrate) BITRATE_LADDER"
    and "map vi_bandwidth (pk_variants pk) = map bandwidth BITRATE_LADDER"
    and "pk_segmentCount pk = sum_list (map vi_segmentCount (pk_variants pk))"
    by simp_all
qed

lemma manifest_not_variant_dir:
  "v \<in> set BITRATE_LADDER \<Longrightarrow>
   \<not> prefix (manifestPath od fn) (path_join (packageDir od fn) (vname v)) \<and>
   butlast (manifestPath od fn) \<noteq> path_join (packageDir od fn) (vname v)"
  using plain_ladder [of v] by (auto simp: manifestPath_def path_join_plain)

lemma transcodeFile_fail:
  assumes "transcodeFile e ip od fn w = (Inl err, w')"
  shows "\<exists>k \<le> length BITRATE_LADDER.
           trace w' = trace w @ map (encoderCall ip (packageDir od fn)) (take k BITRATE_LADDER)"
    and "map_of (disk w') (manifestPath od fn) = map_of (disk w) (manifestPath od fn)"
proof -
  let ?h = "packageDir od fn"
  let ?m = "manifestPath od fn"
  obtain r1 w1 where m: "mkdirLadder ?h BITRATE_LADDER w = (r1, w1)"
    by (cases "mkdirLadder ?h BITRATE_LADDER w")
  obtain r2 w2 where c: "encodeLadder e ip ?h BITRATE_LADDER [] 0 w1 = (r2, w2)"
    by (cases "encodeLadder e ip ?h BITRATE_LADDER [] 0 w1")
  from m mkdirLadder_jobs_trace [of ?h BITRATE_LADDER w] have t1: "trace w1 = trace w" by simp
  have "\<forall>v \<in> set BITRATE_LADDER. \<not> prefix ?m (path_join ?h (vname v))"
    using manifest_not_variant_dir by blast
  from mkdirLadder_disk [OF this, of w] m
  have d1: "map_of (disk w1) ?m = map_of (disk w) ?m" by simp
  have "\<forall>v \<in> set BITRATE_LADDER. ?m = [] \<or> butlast ?m \<noteq> path_join ?h (vname v)"
    using manifest_not_variant_dir by blast
  from encodeLadder_disk [OF this, of e ip "[]" 0 w1] c
  have d2: "map_of (disk w2) ?m = map_of (disk w1) ?m" by simp
  have "(\<exists>k \<le> length BITRATE_LADDER.
           trace w' = trace w @ map (encoderCall ip ?h) (take k BITRATE_LADDER)) \<and>
        map_of (disk w') ?m = map_of (disk w) ?m"
  proof (cases r1)
    case (Inl e1)
    with assms m have "w' = w1"
      by (simp add: transcodeFile_def Let_def packageDir_def [symmetric])
    with t1 d1 show ?thesis by (intro conjI exI [of _ 0]) simp_all
  next
    case r1: (Inr u)
    show ?thesis
    proof (cases r2)
      case (Inl e2)
      with assms m c r1 have w': "w' = w2"
        by (simp add: transcodeFile_def Let_def packageDir_def [symmetric])
      from c Inl encodeLadder_trace_fail [of e ip ?h BITRATE_LADDER "[]" 0 w1 e2 w2]
      obtain k where "k \<le> length BITRATE_LADDER"
        "trace w2 = trace w1 @ map (encoderCall ip ?h) (take k BITRATE_LADDER)" by auto
      with w' t1 d1 d2 show ?thesis by auto
    next
      case (Inr p)
      obtain vs tot where p: "p = (vs, tot)" by (cases p)
      from assms m c r1 Inr p have w': "w' = w2"
        by (cases "writeFileSync (disk w2) ?m generateMasterPlaylist")
           (simp_all add: transcodeFile_def Let_def packageDir_def [symmetric] manifest_join)
      from c Inr have "trace w2 = trace w1 @ map (encoderCall ip ?h) BITRATE_LADDER"
        by (simp add: encodeLadder_trace_ok)
      with w' t1 d1 d2 show ?thesis
        by (intro conjI exI [of _ "length BITRATE_LADDER"]) simp_all
    qed
  qed
  then show "\<exists>k \<le> length BITRATE_LADDER.
           trace w' = trace w @ map (encoderCall ip ?h) (take k BITRATE_LADDER)"
    and "map_of (disk w') ?m = map_of (disk w) ?m" by simp_all
qed


section \<open>Sample runs\<close>

text \<open>
  The builds of the two sample uploads, evaluated once: \<^verbatim>\<open>a.mp3\<close> on the disk that holds
  the uploads, and \<^verbatim>\<open>b.mp3\<close>, which the sample encoder rejects at the first variant, on that
  disk and on the disk that the build of \<^verbatim>\<open>a.mp3\<close> leaves.
\<close>

lemma ffmpegArgs_input: "ffmpegArgs ip od br ! Suc 0 = ip"
  by (simp add: ffmpegArgs_def)

lemmas eval_defs =
  transcodeFile_def transcodeVariant_def BITRATE_LADDER_def uploadedWorld_def mkdirSync_def
  path_join_plain plainSegment_def basename_def lastSegment_def endsWith_def sampleEncoder_def
  ffmpegArgs_input writeOutputs_def readdirSync_def statNode_def entries_def showCode_def
  sliceLast_def writeFileSync_def isDirectory_def Let_def encoderCall_def

lemma build_a:
  assumes "ffmpeg e = sampleEncoder" and "disk w = disk uploadedWorld"
  shows "transcodeFile e ''/tmp/hls-jobs/j/a.mp3'' jobDirJ ''a.mp3'' w
     = (Inr pkA,
        w\<lparr> disk := disk uploadedWorld @ packageA,
           trace := trace w
             @ map (encoderCall ''/tmp/hls-jobs/j/a.mp3'' (jobDirJ @ [''a''])) BITRATE_LADDER
             @ [WriteFile (jobDirJ @ [''a'', ''master.m3u8''])] \<rparr>)"
  using assms by (simp add: eval_defs jobDirJ_def packageA_def pkA_def parseInt_def isDigit_def)

lemma build_b_after_a:
  assumes "ffmpeg e = sampleEncoder" and "disk w = disk uploadedWorld @ packageA"
  shows "transcodeFile e ''/tmp/hls-jobs/j/b.mp3'' jobDirJ ''b.mp3'' w
     = (Inl errB,
        w\<lparr> disk := disk uploadedWorld @ packageA @ dirsB,
           trace := trace w
             @ [encoderCall ''/tmp/hls-jobs/j/b.mp3'' (jobDirJ @ [''b''])
                  \<lparr> vname = ''low'', bitrate = ''32k'', bandwidth = 48000 \<rparr>] \<rparr>)"
  using assms
  by (simp add: eval_defs jobDirJ_def packageA_def dirsB_def errB_def toString.simps
        digitChar_def)

lemma build_b:
  assumes "ffmpeg e = sampleEncoder" and "disk w = disk uploadedWorld"
  shows "transcodeFile e ''/tmp/hls-jobs/j/b.mp3'' jobDirJ ''b.mp3'' w
     = (Inl errB,
        w\<lparr> disk := disk uploadedWorld @ dirsB,
           trace := trace w
             @ [encoderCall ''/tmp/hls-jobs/j/b.mp3'' (jobDirJ @ [''b''])
                  \<lparr> vname = ''low'', bitrate = ''32k'', bandwidth = 48000 \<rparr>] \<rparr>)"
  using assms
  by (simp add: eval_defs jobDirJ_def dirsB_def errB_def toString.simps digitChar_def)

section \<open>Package Builder: the claims\<close>


lemma sample_paths:
  "packageDir jobDirJ ''a.mp3'' = jobDirJ @ [''a'']"
  "packageDir jobDirJ ''b.mp3'' = jobDirJ @ [''b'']"
  "manifestPath jobDirJ ''a.mp3'' = jobDirJ @ [''a'', ''master.m3u8'']"
  "manifestPath jobDirJ ''b.mp3'' = jobDirJ @ [''b'', ''master.m3u8'']"
  by (simp_all add: manifestPath_def packageDir_def basename_def lastSegment_def endsWith_def
        path_join_plain plainSegment_def)


section \<open>Package folder name and segment count\<close>






section \<open>Synchronous transcode\<close>

lemma encoderCall_not_archive: "filter isArchive (map (encoderCall ip h) vs) = []"
  by (induction vs) (simp_all add: encoderCall_def)

lemma transcodeFile_archive:
  "filter isArchive (trace (snd (transcodeFile e ip od fn w))) = filter isArchive (trace w)"
proof (cases "transcodeFile e ip od fn w")
  case (Pair r w')
  show ?thesis
  proof (cases r)
    case (Inl err)
    with Pair transcodeFile_fail(1) [of e ip od fn w err w'] obtain k where
      "trace w' = trace w @ map (encoderCall ip (packageDir od fn)) (take k BITRATE_LADDER)"
      by auto
    with Pair show ?thesis by (simp add: encoderCall_not_archive)
  next
    case (Inr pk)
    with Pair transcodeFile_ok(1) [of e ip od fn w pk w'] show ?thesis
      by (simp add: encoderCall_not_archive)
  qed
qed

lemma transcodeSync_jobs: "jobs (snd (transcodeSync e jid file w)) = jobs w"
proof -
  let ?jd = "path_join TEMP_DIR jid"
  show ?thesis
  proof (cases "if \<not> existsSync (disk w) ?jd then mkdirSync (disk w) ?jd else Inr (disk w)")
    case (Inl err)
    then show ?thesis by (simp add: transcodeSync_def Let_def)
  next
    case (Inr d)
    obtain r w1 where t: "transcodeFile e (path file) ?jd (originalName file) (w\<lparr> disk := d \<rparr>)
                            = (r, w1)"
      by (cases "transcodeFile e (path file) ?jd (originalName file) (w\<lparr> disk := d \<rparr>)")
    from t transcodeFile_jobs [of e "path file" ?jd "originalName file" "w\<lparr> disk := d \<rparr>"]
    have "jobs w1 = jobs w" by simp
    with Inr t show ?thesis
      by (simp add: transcodeSync_def Let_def split: sum.split)
  qed
qed

lemma transcodeSync_archive:
  "filter isArchive (trace (snd (transcodeSync e jid file w))) = filter isArchive (trace w)"
proof -
  let ?jd = "path_join TEMP_DIR jid"
  show ?thesis
  proof (cases "if \<not> existsSync (disk w) ?jd then mkdirSync (disk w) ?jd else Inr (disk w)")
    case (Inl err)
    then show ?thesis by (simp add: transcodeSync_def Let_def)
  next
    case (Inr d)
    obtain r w1 where t: "transcodeFile e (path file) ?jd (originalName file) (w\<lparr> disk := d \<rparr>)
                            = (r, w1)"
      by (cases "transcodeFile e (path file) ?jd (originalName file) (w\<lparr> disk := d \<rparr>)")
    from t transcodeFile_archive [of e "path file" ?jd "originalName file" "w\<lparr> disk := d \<rparr>"]
    have "filter isArchive (trace w1) = filter isArchive (trace w)" by simp
    with Inr t show ?thesis
      by (simp add: transcodeSync_def Let_def split: sum.split)
  qed
qed

text \<open>
  C10. \<^verbatim>\<open>transcodeSync\<close> leaves the registry as it is, and so does every step of the package
  build that it runs: a status query gives the same answer before, during and after it,
  and for an id that is not in the registry that answer is \<^verbatim>\<open>null\<close> (not found). It adds no
  archive event to the trace. Once the job directory is there, it returns a record
  whatever happens: when the package build fails with an error, the record is
  \<^verbatim>\<open>{ success: false, error }\<close> with the message of that error, and likewise when
  collecting the files of the package fails. (The only exception that can leave
  \<^verbatim>\<open>transcodeSync\<close> is one of the \<^verbatim>\<open>mkdirSync\<close> in front of its \<^verbatim>\<open>try\<close>.)
\<close>

theorem transcodeSync_contract:
  "jobs (snd (transcodeSync e jid file w)) = jobs w \<and>
   (\<forall>k. getJobStatus (snd (transcodeSync e jid file w)) k = getJobStatus w k) \<and>
   (getJobStatus w jid = None \<longrightarrow> getJobStatus (snd (transcodeSync e jid file w)) jid = None) \<and>
   (\<forall>ip od br fn vs acc tot w0.
      jobs (snd (mkdirLadder od vs w0)) = jobs w0 \<and>
      jobs (snd (transcodeVariant e ip od br w0)) = jobs w0 \<and>
      jobs (snd (encodeLadder e ip od vs acc tot w0)) = jobs w0 \<and>
      jobs (snd (transcodeFile e ip od fn w0)) = jobs w0) \<and>
   filter isArchive (trace (snd (transcodeSync e jid file w))) = filter isArchive (trace w) \<and>
   (\<forall>d. (if \<not> existsSync (disk w) (path_join TEMP_DIR jid)
          then mkdirSync (disk w) (path_join TEMP_DIR jid) else Inr (disk w)) = Inr d \<longrightarrow>
        (\<exists>r. fst (transcodeSync e jid file w) = Inr r) \<and>
        (\<forall>err w1. transcodeFile e (path file) (path_join TEMP_DIR jid) (originalName file)
                     (w\<lparr> disk := d \<rparr>) = (Inl err, w1) \<longrightarrow>
           transcodeSync e jid file w = (Inr (SyncFailure (message err)), w1) \<and>
           \<not> success (SyncFailure (message err))) \<and>
        (\<forall>pk err w1. transcodeFile e (path file) (path_join TEMP_DIR jid) (originalName file)
                        (w\<lparr> disk := d \<rparr>) = (Inr pk, w1) \<and>
                      collectHLSFiles (disk w1) (pk_hlsDir pk) = Inl err \<longrightarrow>
           transcodeSync e jid file w = (Inr (SyncFailure (message err)), w1)))"
proof (intro conjI allI impI)
  show "jobs (snd (transcodeSync e jid file w)) = jobs w" by (rule transcodeSync_jobs)
next
  fix k
  show "getJobStatus (snd (transcodeSync e jid file w)) k = getJobStatus w k"
    by (simp add: getJobStatus_def transcodeSync_jobs)
next
  assume "getJobStatus w jid = None"
  then show "getJobStatus (snd (transcodeSync e jid file w)) jid = None"
    by (simp add: getJobStatus_def transcodeSync_jobs)
next
  show "filter isArchive (trace (snd (transcodeSync e jid file w))) = filter isArchive (trace w)"
    by (rule transcodeSync_archive)
next
  fix d
  assume d: "(if \<not> existsSync (disk w) (path_join TEMP_DIR jid)
          then mkdirSync (disk w) (path_join TEMP_DIR jid) else Inr (disk w)) = Inr d"
  obtain r w1 where t: "transcodeFile e (path file) (path_join TEMP_DIR jid) (originalName file)
                          (w\<lparr> disk := d \<rparr>) = (r, w1)"
    by (cases "transcodeFile e (path file) (path_join TEMP_DIR jid) (originalName file)
                 (w\<lparr> disk := d \<rparr>)")
  from d t show "\<exists>r. fst (transcodeSync e jid file w) = Inr r"
    by (simp add: transcodeSync_def Let_def split: sum.split)
next
  fix d err w1
  assume d: "(if \<not> existsSync (disk w) (path_join TEMP_DIR jid)
          then mkdirSync (disk w) (path_join TEMP_DIR jid) else Inr (disk w)) = Inr d"
    and t: "transcodeFile e (path file) (path_join TEMP_DIR jid) (originalName file)
              (w\<lparr> disk := d \<rparr>) = (Inl err, w1)"
  from d t show "transcodeSync e jid file w = (Inr (SyncFailure (message err)), w1)"
    by (simp add: transcodeSync_def Let_def)
next
  fix d pk err w1
  assume d: "(if \<not> existsSync (disk w) (path_join TEMP_DIR jid)
          then mkdirSync (disk w) (path_join TEMP_DIR jid) else Inr (disk w)) = Inr d"
    and t: "transcodeFile e (path file) (path_join TEMP_DIR jid) (originalName file)
              (w\<lparr> disk := d \<rparr>) = (Inr pk, w1) \<and>
            collectHLSFiles (disk w1) (pk_hlsDir pk) = Inl err"
  from d t show "transcodeSync e jid file w = (Inr (SyncFailure (message err)), w1)"
    by (simp add: transcodeSync_def Let_def)
qed (simp_all add: mkdirLadder_jobs_trace transcodeVariant_jobs encodeLadder_jobs
       transcodeFile_jobs)

lemma jobDirJ_join: "path_join TEMP_DIR ''j'' = jobDirJ"
  by (simp add: path_join_plain plainSegment_def TEMP_DIR_def jobDirJ_def)

theorem transcodeSync_contract_witness:
  "getJobStatus uploadedWorld ''j'' = None \<and>
   existsSync (disk uploadedWorld) (path_join TEMP_DIR ''j'') \<and>
   fst (transcodeSync sampleEnv ''j'' trackB uploadedWorld)
     = Inr (SyncFailure ''FFmpeg exited with code 1: bad input'') \<and>
   getJobStatus (snd (transcodeSync sampleEnv ''j'' trackB uploadedWorld)) ''j'' = None \<and>
   filter isArchive (trace (snd (transcodeSync sampleEnv ''j'' trackB uploadedWorld))) = []"
proof -
  note t = transcodeSync_contract [of sampleEnv "''j''" trackB uploadedWorld]
  have enc: "ffmpeg sampleEnv = sampleEncoder" by (simp add: sampleEnv_def)
  have none: "getJobStatus uploadedWorld ''j'' = None"
    by (simp add: getJobStatus_def uploadedWorld_def)
  have ex: "existsSync (disk uploadedWorld) (path_join TEMP_DIR ''j'')"
    by (simp add: jobDirJ_join existsSync_def statNode_def uploadedWorld_def jobDirJ_def)
  then have d: "(if \<not> existsSync (disk uploadedWorld) (path_join TEMP_DIR ''j'')
          then mkdirSync (disk uploadedWorld) (path_join TEMP_DIR ''j'')
          else Inr (disk uploadedWorld)) = Inr (disk uploadedWorld)"
    by simp
  have "transcodeFile sampleEnv ''/tmp/hls-jobs/j/b.mp3'' jobDirJ ''b.mp3''
          (uploadedWorld\<lparr> disk := disk uploadedWorld \<rparr>)
        = (Inl errB,
           uploadedWorld\<lparr> disk := disk uploadedWorld,
             disk := disk uploadedWorld @ dirsB,
             trace := trace (uploadedWorld\<lparr> disk := disk uploadedWorld \<rparr>)
               @ [encoderCall ''/tmp/hls-jobs/j/b.mp3'' (jobDirJ @ [''b''])
                    \<lparr> vname = ''low'', bitrate = ''32k'', bandwidth = 48000 \<rparr>] \<rparr>)"
    by (rule build_b [OF enc]) simp
  then obtain w1 where
    b: "transcodeFile sampleEnv (path trackB) (path_join TEMP_DIR ''j'') (originalName trackB)
          (uploadedWorld\<lparr> disk := disk uploadedWorld \<rparr>) = (Inl errB, w1)"
    by (simp add: trackB_def jobDirJ_join)
  from t d b have run: "transcodeSync sampleEnv ''j'' trackB uploadedWorld
                          = (Inr (SyncFailure (message errB)), w1)"
    by blast
  from t none have after: "getJobStatus (snd (transcodeSync sampleEnv ''j'' trackB
                                               uploadedWorld)) ''j'' = None"
    by blast
  from t have "filter isArchive (trace (snd (transcodeSync sampleEnv ''j'' trackB
                                               uploadedWorld)))
                 = filter isArchive (trace uploadedWorld)"
    by blast
  then have arch: "filter isArchive (trace (snd (transcodeSync sampleEnv ''j'' trackB
                                                  uploadedWorld))) = []"
    by (simp add: uploadedWorld_def)
  from none ex run after arch show ?thesis by (simp add: errB_def)
qed

section \<open>Job Orchestrator: the terminal status\<close>

lemma withFiles_twice: "withFiles (withFiles j a) b = withFiles j b"
  by (simp add: withFiles_def)

lemma withFiles_fields:
  "files (withFiles j fs) = fs"
  "completedFiles (withFiles j fs) = length (filter (\<lambda>f. status f = Completed) fs)"
  "failedFiles (withFiles j fs) = length (filter (\<lambda>f. status f = Failed) fs)"
  "zipPath (withFiles j fs) = zipPath j"
  "jobError (withFiles j fs) = jobError j"
  "jobStatus (withFiles j fs) = jobStatus j"
  by (simp_all add: withFiles_def countStatus_def)

lemma updateFileStatus_present:
  "map_of (jobs w) jid = Some j \<Longrightarrow>
   map_of (jobs (updateFileStatus jid n u w)) jid = Some (withFiles j (assignFirst n u (files j)))"
  by (simp add: jobs_updateFileStatus withFiles_def)

lemma initJob_withFiles:
  "fst (initJob now jid fs w) = withFiles (fst (initJob now jid fs w))
                                  (files (fst (initJob now jid fs w)))"
  by (simp add: initJob_fst withFiles_def countStatus_def filter_initial_entries)

text \<open>The file loop changes nothing of the job but its entries and the two counters.\<close>

lemma fileLoop_job:
  "map_of (jobs w) jid = Some (withFiles j a) \<Longrightarrow>
   \<exists>b. map_of (jobs (fileLoop e jid jd fs w)) jid = Some (withFiles j b)"
proof (induction fs arbitrary: w a)
  case Nil
  then show ?case by auto
next
  case (Cons f fs)
  let ?w1 = "updateFileStatus jid (originalName f)
               \<lparr> u_status = Some Processing, u_hlsFolder = None, u_segmentCount = None,
                 u_error = None \<rparr> w"
  from updateFileStatus_present [OF Cons.prems] obtain a1 where
    1: "map_of (jobs ?w1) jid = Some (withFiles j a1)"
    by (auto simp: withFiles_twice)
  obtain r w2 where t: "transcodeFile e (path f) jd (originalName f) ?w1 = (r, w2)"
    by (cases "transcodeFile e (path f) jd (originalName f) ?w1")
  from t transcodeFile_jobs [of e "path f" jd "originalName f" ?w1] 1
  have 2: "map_of (jobs w2) jid = Some (withFiles j a1)" by simp
  show ?case
  proof (cases r)
    case (Inl err)
    let ?w3 = "updateFileStatus jid (originalName f)
                 \<lparr> u_status = Some Failed, u_hlsFolder = None, u_segmentCount = None,
                   u_error = Some (message err) \<rparr> w2"
    from updateFileStatus_present [OF 2] obtain a3 where
      "map_of (jobs ?w3) jid = Some (withFiles j a3)"
      by (auto simp: withFiles_twice)
    from Cons.IH [OF this] t Inl show ?thesis by simp
  next
    case (Inr pk)
    let ?w3 = "updateFileStatus jid (originalName f)
                 \<lparr> u_status = Some Completed, u_hlsFolder = Some (pk_hlsFolder pk),
                   u_segmentCount = Some (pk_segmentCount pk), u_error = None \<rparr> w2"
    from updateFileStatus_present [OF 2] obtain a3 where
      "map_of (jobs ?w3) jid = Some (withFiles j a3)"
      by (auto simp: withFiles_twice)
    from Cons.IH [OF this] t Inr show ?thesis by simp
  qed
qed

lemma afterLoop_job:
  "\<exists>b. map_of (jobs (afterLoop e jid fs w)) jid
          = Some (withFiles (fst (initJob (startTime e) jid fs w)) b)"
proof -
  have "map_of (jobs (snd (initJob (startTime e) jid fs w))) jid
          = Some (withFiles (fst (initJob (startTime e) jid fs w))
                    (files (fst (initJob (startTime e) jid fs w))))"
    using initJob_withFiles [of "startTime e" jid fs w]
    by (simp add: initJob_snd update_conv')
  from fileLoop_job [OF this] show ?thesis by (simp add: afterLoop_def)
qed

lemma createZipArchive_jobs: "jobs (snd (createZipArchive e jid od w)) = jobs w"
  by (simp add: createZipArchive_def Let_def split: sum.split)

lemma createZipArchive_path:
  "createZipArchive e jid od w = (Inr zp, w') \<Longrightarrow> zp = path_join od ''hls-output.zip''"
  by (auto simp: createZipArchive_def Let_def split: sum.splits)

lemma storeJob_present:
  "map_of (jobs w) jid = Some j0 \<Longrightarrow>
   fst (storeJob jid j w) = j \<and> map_of (jobs (snd (storeJob jid j w))) jid = Some j"
  by (simp add: storeJob_def update_conv')

text \<open>The three ways in which \<^verbatim>\<open>transcode\<close> settles the job, by what the loop left.\<close>

lemma transcode_cases:
  assumes "transcode e jid fs w = (j, w')"
  obtains b where "map_of (jobs (afterLoop e jid fs w)) jid
                     = Some (withFiles (fst (initJob (startTime e) jid fs w)) b)"
    and "getJobStatus w' jid = Some j"
    and "files j = b"
    and "failedFiles j = length (filter (\<lambda>f. status f = Failed) b)"
    and "(filter (\<lambda>f. status f = Completed) b = [] \<and> jobStatus j = JobFailed \<and>
          jobError j = Some ''All files failed to transcode'' \<and> zipPath j = None) \<or>
         (filter (\<lambda>f. status f = Completed) b \<noteq> [] \<and>
          (\<exists>err. archiveOutcome e jid fs w = Inl err \<and> jobStatus j = JobFailed \<and>
                 jobError j = Some (message err) \<and> zipPath j = None)) \<or>
         (filter (\<lambda>f. status f = Completed) b \<noteq> [] \<and>
          (\<exists>zp. archiveOutcome e jid fs w = Inr zp \<and> zipPath j = Some zp \<and>
                jobStatus j = (if 0 < length (filter (\<lambda>f. status f = Failed) b)
                               then JobCompletedWithErrors else JobCompleted)))"
proof -
  let ?j0 = "fst (initJob (startTime e) jid fs w)"
  let ?w1 = "afterLoop e jid fs w"
  let ?jd = "path_join TEMP_DIR jid"
  from afterLoop_job [of e jid fs w] obtain b where
    b: "map_of (jobs ?w1) jid = Some (withFiles ?j0 b)" by blast
  let ?j1 = "withFiles ?j0 b"
  have z0: "zipPath ?j1 = None" "jobError ?j1 = None"
    by (simp_all add: withFiles_fields initJob_fst)
  obtain ar w2 where ar: "createZipArchive e jid ?jd ?w1 = (ar, w2)"
    by (cases "createZipArchive e jid ?jd ?w1")
  from ar createZipArchive_jobs [of e jid ?jd ?w1] b
  have b2: "map_of (jobs w2) jid = Some ?j1" by simp
  from ar have out: "archiveOutcome e jid fs w = ar" by (simp add: archiveOutcome_def)
  show ?thesis
  proof (cases "filter (\<lambda>f. status f = Completed) b = []")
    case True
    with assms b have "(j, w') = storeJob jid
         (?j1\<lparr> jobStatus := JobFailed, jobError := Some ''All files failed to transcode'',
               completedAt := Some (endTime e) \<rparr>) ?w1"
      by (simp add: transcode_def Let_def afterLoop_def [symmetric] withFiles_fields)
    with storeJob_present [OF b] True z0 that [OF b] show ?thesis
      by (simp add: getJobStatus_def withFiles_fields prod_eq_iff)
  next
    case False
    show ?thesis
    proof (cases ar)
      case (Inl err)
      with assms b ar False have "(j, w') = storeJob jid
           (?j1\<lparr> jobStatus := JobFailed, jobError := Some (message err),
                 completedAt := Some (endTime e) \<rparr>) w2"
        by (simp add: transcode_def Let_def afterLoop_def [symmetric] withFiles_fields)
      with storeJob_present [OF b2] False z0 out Inl that [OF b] show ?thesis
        by (simp add: getJobStatus_def withFiles_fields prod_eq_iff)
    next
      case (Inr zp)
      with assms b ar False have "(j, w') = storeJob jid
           (?j1\<lparr> zipPath := Some zp,
                 jobStatus := (if failedFiles ?j1 > 0 then JobCompletedWithErrors
                               else JobCompleted),
                 completedAt := Some (endTime e) \<rparr>) w2"
        by (simp add: transcode_def Let_def afterLoop_def [symmetric] withFiles_fields)
      with storeJob_present [OF b2] False out Inr that [OF b] show ?thesis
        by (simp add: getJobStatus_def withFiles_fields prod_eq_iff)
    qed
  qed
qed

section \<open>Sample runs of the file loop\<close>

lemmas loop_defs =
  afterLoop_def jobDirJ_join initJob_snd initJob_fst trackA_def trackB_def updateFileStatus_def
  assign_def countStatus_def Let_def entryA_def entryB_def jobAfterLoop_def pkA_def errB_def

lemma loop_partial:
  assumes "ffmpeg e = sampleEncoder" and "startTime e = 1000"
  shows "jobs (afterLoop e ''j'' [trackA, trackB] uploadedWorld)
           = [(''j'', jobAfterLoop [entryA, entryB])]"
    and "disk (afterLoop e ''j'' [trackA, trackB] uploadedWorld)
           = disk uploadedWorld @ packageA @ dirsB"
  using assms
  by (simp_all add: loop_defs uploadedWorld_def build_a build_b_after_a)

lemma loop_a:
  assumes "ffmpeg e = sampleEncoder" and "startTime e = 1000"
  shows "jobs (afterLoop e ''j'' [trackA] uploadedWorld) = [(''j'', jobAfterLoop [entryA])]"
    and "disk (afterLoop e ''j'' [trackA] uploadedWorld) = disk uploadedWorld @ packageA"
  using assms
  by (simp_all add: loop_defs uploadedWorld_def build_a)

lemma loop_b:
  assumes "ffmpeg e = sampleEncoder" and "startTime e = 1000"
  shows "jobs (afterLoop e ''j'' [trackB] uploadedWorld) = [(''j'', jobAfterLoop [entryB])]"
    and "disk (afterLoop e ''j'' [trackB] uploadedWorld) = disk uploadedWorld @ dirsB"
  using assms
  by (simp_all add: loop_defs uploadedWorld_def build_b)

lemma archive_rejected:
  "archiver e = (\<lambda>d zp items. Inl m) \<Longrightarrow> \<exists>err. fst (createZipArchive e jid od w) = Inl err"
  by (simp add: createZipArchive_def Let_def split: sum.split)

lemma archive_resolved:
  "archiver e = (\<lambda>d zp items. Inr bytes) \<Longrightarrow> isDirectory (disk w) od \<Longrightarrow>
   fst (createZipArchive e jid od w) = Inr (path_join od ''hls-output.zip'')"
  by (simp add: createZipArchive_def Let_def readdirSync_def isDirectory_def)

lemma some_completed:
  "filter (\<lambda>f. status f = s) fs \<noteq> [] \<longleftrightarrow> (\<exists>f \<in> set fs. status f = s)"
  by (simp add: filter_empty_conv)

lemma some_failed:
  "0 < length (filter (\<lambda>f. status f = s) fs) \<longleftrightarrow> (\<exists>f \<in> set fs. status f = s)"
  by (simp add: filter_empty_conv)

lemma archive_rejected_message:
  "archiver e = (\<lambda>d zp items. Inl m) \<Longrightarrow> isDirectory (disk w) od \<Longrightarrow>
   fst (createZipArchive e jid od w) = Inl (Error m)"
  by (simp add: createZipArchive_def Let_def readdirSync_def isDirectory_def)

lemma transcode_files:
  assumes "transcode e jid fs w = (j, w')"
    and "jobs (afterLoop e jid fs w) = [(jid, j1)]"
  shows "files j = files j1"
  using assms(1)
proof (rule transcode_cases)
  fix b
  assume "map_of (jobs (afterLoop e jid fs w)) jid
            = Some (withFiles (fst (initJob (startTime e) jid fs w)) b)"
    and "files j = b"
  with assms(2) show ?thesis by (auto simp: withFiles_fields)
qed

lemma sample_files:
  assumes "ffmpeg e = sampleEncoder" and "startTime e = 1000"
  shows "files (fst (transcode e ''j'' [trackA, trackB] uploadedWorld)) = [entryA, entryB]"
    and "files (fst (transcode e ''j'' [trackA] uploadedWorld)) = [entryA]"
    and "files (fst (transcode e ''j'' [trackB] uploadedWorld)) = [entryB]"
proof -
  show "files (fst (transcode e ''j'' [trackA, trackB] uploadedWorld)) = [entryA, entryB]"
    using transcode_files [OF _ loop_partial(1) [OF assms], of "fst (transcode e ''j'' [trackA, trackB] uploadedWorld)"
            "snd (transcode e ''j'' [trackA, trackB] uploadedWorld)"]
    by (simp add: jobAfterLoop_def)
  show "files (fst (transcode e ''j'' [trackA] uploadedWorld)) = [entryA]"
    using transcode_files [OF _ loop_a(1) [OF assms], of "fst (transcode e ''j'' [trackA] uploadedWorld)"
            "snd (transcode e ''j'' [trackA] uploadedWorld)"]
    by (simp add: jobAfterLoop_def)
  show "files (fst (transcode e ''j'' [trackB] uploadedWorld)) = [entryB]"
    using transcode_files [OF _ loop_b(1) [OF assms], of "fst (transcode e ''j'' [trackB] uploadedWorld)"
            "snd (transcode e ''j'' [trackB] uploadedWorld)"]
    by (simp add: jobAfterLoop_def)
qed

lemma sample_job_dir:
  "isDirectory (disk uploadedWorld @ rest) (path_join TEMP_DIR ''j'')"
  by (simp add: jobDirJ_join isDirectory_def statNode_def uploadedWorld_def jobDirJ_def)

lemma sample_archived:
  assumes "ffmpeg e = sampleEncoder" and "startTime e = 1000"
    and "archiver e = (\<lambda>d zp items. Inr bytes)"
  shows "archiveOutcome e ''j'' [trackA, trackB] uploadedWorld = Inr (jobDirJ @ [''hls-output.zip''])"
    and "archiveOutcome e ''j'' [trackA] uploadedWorld = Inr (jobDirJ @ [''hls-output.zip''])"
proof -
  have zp: "path_join (path_join TEMP_DIR ''j'') ''hls-output.zip'' = jobDirJ @ [''hls-output.zip'']"
    by (simp add: jobDirJ_join path_join_plain plainSegment_def)
  show "archiveOutcome e ''j'' [trackA, trackB] uploadedWorld = Inr (jobDirJ @ [''hls-output.zip''])"
    unfolding archiveOutcome_def
    using archive_resolved [OF assms(3), of "afterLoop e ''j'' [trackA, trackB] uploadedWorld"
            "path_join TEMP_DIR ''j''" "''j''"]
    by (simp add: loop_partial(2) [OF assms(1,2)] sample_job_dir zp)
  show "archiveOutcome e ''j'' [trackA] uploadedWorld = Inr (jobDirJ @ [''hls-output.zip''])"
    unfolding archiveOutcome_def
    using archive_resolved [OF assms(3), of "afterLoop e ''j'' [trackA] uploadedWorld"
            "path_join TEMP_DIR ''j''" "''j''"]
    by (simp add: loop_a(2) [OF assms(1,2)] sample_job_dir zp)
qed

text \<open>
  C2, as the specification states it, fails when archiving fails: the only file of the
  job is transcoded, so every entry is \<^verbatim>\<open>completed\<close>, the archiver reports an error, and
  the \<^verbatim>\<open>catch\<close> of \<^verbatim>\<open>transcode\<close> settles the job as \<^verbatim>\<open>failed\<close>, without an archive path.
\<close>

theorem transcode_all_completed_counterexample:
  "files (fst (transcode brokenArchiveEnv ''j'' [trackA] uploadedWorld)) = [entryA] \<and>
   status entryA = Completed \<and>
   jobStatus (fst (transcode brokenArchiveEnv ''j'' [trackA] uploadedWorld)) = JobFailed \<and>
   jobError (fst (transcode brokenArchiveEnv ''j'' [trackA] uploadedWorld)) = Some ''write EIO'' \<and>
   zipPath (fst (transcode brokenArchiveEnv ''j'' [trackA] uploadedWorld)) = None"
proof -
  obtain j w' where t: "transcode brokenArchiveEnv ''j'' [trackA] uploadedWorld = (j, w')"
    by (cases "transcode brokenArchiveEnv ''j'' [trackA] uploadedWorld")
  have enc: "ffmpeg brokenArchiveEnv = sampleEncoder" "startTime brokenArchiveEnv = 1000"
    by (simp_all add: brokenArchiveEnv_def)
  have "archiver brokenArchiveEnv = (\<lambda>d zp items. Inl ''write EIO'')"
    by (simp add: brokenArchiveEnv_def)
  from archive_rejected_message [OF this, of "afterLoop brokenArchiveEnv ''j'' [trackA] uploadedWorld"
         "path_join TEMP_DIR ''j''" "''j''"]
  have out: "archiveOutcome brokenArchiveEnv ''j'' [trackA] uploadedWorld = Inl (Error ''write EIO'')"
    by (simp add: archiveOutcome_def loop_a(2) [OF enc] sample_job_dir)
  from sample_files(2) [OF enc] t have fs: "files j = [entryA]" by simp
  have c: "status entryA = Completed" by (simp add: entryA_def)
  from t have "jobStatus j = JobFailed \<and> jobError j = Some ''write EIO'' \<and> zipPath j = None"
  proof (rule transcode_cases)
    fix b
    assume "files j = b"
      and "(filter (\<lambda>f. status f = Completed) b = [] \<and> jobStatus j = JobFailed \<and>
          jobError j = Some ''All files failed to transcode'' \<and> zipPath j = None) \<or>
         (filter (\<lambda>f. status f = Completed) b \<noteq> [] \<and>
          (\<exists>err. archiveOutcome brokenArchiveEnv ''j'' [trackA] uploadedWorld = Inl err \<and>
                 jobStatus j = JobFailed \<and> jobError j = Some (message err) \<and>
                 zipPath j = None)) \<or>
         (filter (\<lambda>f. status f = Completed) b \<noteq> [] \<and>
          (\<exists>zp. archiveOutcome brokenArchiveEnv ''j'' [trackA] uploadedWorld = Inr zp \<and>
                zipPath j = Some zp \<and>
                jobStatus j = (if 0 < length (filter (\<lambda>f. status f = Failed) b)
                               then JobCompletedWithErrors else JobCompleted)))"
    with fs c out show ?thesis by auto
  qed
  with t fs c show ?thesis by simp
qed

text \<open>
  C2, amended. When \<^verbatim>\<open>transcode\<close> returns, the registry holds the job it returns, and its
  status follows from the entries and from the archiving step. With no entry \<^verbatim>\<open>completed\<close>
  the status is \<^verbatim>\<open>failed\<close>, the error says that all files failed and there is no archive
  path. With an entry \<^verbatim>\<open>completed\<close>, archiving is attempted: if it is rejected, the status
  is \<^verbatim>\<open>failed\<close>, the error is the message of the rejection and there is no archive path;
  if it succeeds, the archive path is set and the status is \<^verbatim>\<open>completed_with_errors\<close> when
  an entry is \<^verbatim>\<open>failed\<close> and \<^verbatim>\<open>completed\<close> when none is, in particular when the job has a
  file and every entry is \<^verbatim>\<open>completed\<close>. A job that ends as \<^verbatim>\<open>completed\<close> or
  \<^verbatim>\<open>completed_with_errors\<close> has an archive path.
\<close>

theorem transcode_terminal_status:
  "\<forall>j w'. transcode e jid fs w = (j, w') \<longrightarrow>
     getJobStatus w' jid = Some j \<and>
     ((\<forall>f \<in> set (files j). status f \<noteq> Completed) \<longrightarrow>
        jobStatus j = JobFailed \<and> jobError j = Some ''All files failed to transcode'' \<and>
        zipPath j = None) \<and>
     (\<forall>err. (\<exists>f \<in> set (files j). status f = Completed) \<and>
            archiveOutcome e jid fs w = Inl err \<longrightarrow>
        jobStatus j = JobFailed \<and> jobError j = Some (message err) \<and> zipPath j = None) \<and>
     (\<forall>zp. files j \<noteq> [] \<and> (\<forall>f \<in> set (files j). status f = Completed) \<and>
           archiveOutcome e jid fs w = Inr zp \<longrightarrow>
        jobStatus j = JobCompleted \<and> zipPath j = Some zp) \<and>
     (\<forall>zp. (\<exists>f \<in> set (files j). status f = Completed) \<and>
           (\<forall>f \<in> set (files j). status f \<noteq> Failed) \<and>
           archiveOutcome e jid fs w = Inr zp \<longrightarrow>
        jobStatus j = JobCompleted \<and> zipPath j = Some zp) \<and>
     (\<forall>zp. (\<exists>f \<in> set (files j). status f = Completed) \<and>
           (\<exists>f \<in> set (files j). status f = Failed) \<and>
           archiveOutcome e jid fs w = Inr zp \<longrightarrow>
        jobStatus j = JobCompletedWithErrors \<and> zipPath j = Some zp) \<and>
     (jobStatus j = JobCompleted \<or> jobStatus j = JobCompletedWithErrors \<longrightarrow>
        zipPath j \<noteq> None)"
proof (intro allI impI)
  fix j w'
  assume t: "transcode e jid fs w = (j, w')"
  from t show "getJobStatus w' jid = Some j \<and>
     ((\<forall>f \<in> set (files j). status f \<noteq> Completed) \<longrightarrow>
        jobStatus j = JobFailed \<and> jobError j = Some ''All files failed to transcode'' \<and>
        zipPath j = None) \<and>
     (\<forall>err. (\<exists>f \<in> set (files j). status f = Completed) \<and>
            archiveOutcome e jid fs w = Inl err \<longrightarrow>
        jobStatus j = JobFailed \<and> jobError j = Some (message err) \<and> zipPath j = None) \<and>
     (\<forall>zp. files j \<noteq> [] \<and> (\<forall>f \<in> set (files j). status f = Completed) \<and>
           archiveOutcome e jid fs w = Inr zp \<longrightarrow>
        jobStatus j = JobCompleted \<and> zipPath j = Some zp) \<and>
     (\<forall>zp. (\<exists>f \<in> set (files j). status f = Completed) \<and>
           (\<forall>f \<in> set (files j). status f \<noteq> Failed) \<and>
           archiveOutcome e jid fs w = Inr zp \<longrightarrow>
        jobStatus j = JobCompleted \<and> zipPath j = Some zp) \<and>
     (\<forall>zp. (\<exists>f \<in> set (files j). status f = Completed) \<and>
           (\<exists>f \<in> set (files j). status f = Failed) \<and>
           archiveOutcome e jid fs w = Inr zp \<longrightarrow>
        jobStatus j = JobCompletedWithErrors \<and> zipPath j = Some zp) \<and>
     (jobStatus j = JobCompleted \<or> jobStatus j = JobCompletedWithErrors \<longrightarrow>
        zipPath j \<noteq> None)"
  proof (rule transcode_cases)
    fix b
    assume g: "getJobStatus w' jid = Some j" and fs: "files j = b"
      and cases: "(filter (\<lambda>f. status f = Completed) b = [] \<and> jobStatus j = JobFailed \<and>
          jobError j = Some ''All files failed to transcode'' \<and> zipPath j = None) \<or>
         (filter (\<lambda>f. status f = Completed) b \<noteq> [] \<and>
          (\<exists>err. archiveOutcome e jid fs w = Inl err \<and> jobStatus j = JobFailed \<and>
                 jobError j = Some (message err) \<and> zipPath j = None)) \<or>
         (filter (\<lambda>f. status f = Completed) b \<noteq> [] \<and>
          (\<exists>zp. archiveOutcome e jid fs w = Inr zp \<and> zipPath j = Some zp \<and>
                jobStatus j = (if 0 < length (filter (\<lambda>f. status f = Failed) b)
                               then JobCompletedWithErrors else JobCompleted)))"
    from cases consider
        (none) "\<forall>f \<in> set b. status f \<noteq> Completed" "jobStatus j = JobFailed"
               "jobError j = Some ''All files failed to transcode''" "zipPath j = None"
      | (rejected) err where "\<exists>f \<in> set b. status f = Completed"
               "archiveOutcome e jid fs w = Inl err" "jobStatus j = JobFailed"
               "jobError j = Some (message err)" "zipPath j = None"
      | (archived) zp where "\<exists>f \<in> set b. status f = Completed"
               "archiveOutcome e jid fs w = Inr zp" "zipPath j = Some zp"
               "jobStatus j = (if \<exists>f \<in> set b. status f = Failed
                               then JobCompletedWithErrors else JobCompleted)"
      unfolding some_completed some_failed by (auto simp: filter_empty_conv)
    then show ?thesis
    proof cases
      case none
      with g fs show ?thesis by auto
    next
      case rejected
      with g fs show ?thesis by auto
    next
      case archived
      with g fs show ?thesis by auto
    qed
  qed
qed

theorem transcode_terminal_status_witness:
  "jobStatus (fst (transcode sampleEnv ''j'' [trackA, trackB] uploadedWorld))
     = JobCompletedWithErrors \<and>
   zipPath (fst (transcode sampleEnv ''j'' [trackA, trackB] uploadedWorld))
     = Some (jobDirJ @ [''hls-output.zip'']) \<and>
   jobStatus (fst (transcode sampleEnv ''j'' [trackA] uploadedWorld)) = JobCompleted \<and>
   jobStatus (fst (transcode sampleEnv ''j'' [trackB] uploadedWorld)) = JobFailed \<and>
   jobError (fst (transcode sampleEnv ''j'' [trackB] uploadedWorld))
     = Some ''All files failed to transcode'' \<and>
   zipPath (fst (transcode sampleEnv ''j'' [trackB] uploadedWorld)) = None"
proof -
  have enc: "ffmpeg sampleEnv = sampleEncoder" "startTime sampleEnv = 1000"
    by (simp_all add: sampleEnv_def)
  have arc: "archiver sampleEnv = (\<lambda>d zp items. Inr ''PK'')"
    by (simp add: sampleEnv_def)
  have st: "status entryA = Completed" "status entryB = Failed"
    by (simp_all add: entryA_def entryB_def)
  obtain j2 w2 where t2: "transcode sampleEnv ''j'' [trackA, trackB] uploadedWorld = (j2, w2)"
    by (cases "transcode sampleEnv ''j'' [trackA, trackB] uploadedWorld")
  obtain ja wa where ta: "transcode sampleEnv ''j'' [trackA] uploadedWorld = (ja, wa)"
    by (cases "transcode sampleEnv ''j'' [trackA] uploadedWorld")
  obtain jb wb where tb: "transcode sampleEnv ''j'' [trackB] uploadedWorld = (jb, wb)"
    by (cases "transcode sampleEnv ''j'' [trackB] uploadedWorld")
  from sample_files [OF enc] t2 ta tb have
    f2: "files j2 = [entryA, entryB]" and fa: "files ja = [entryA]" and fb: "files jb = [entryB]"
    by simp_all
  note out = sample_archived [OF enc arc]
  from transcode_terminal_status [of sampleEnv "''j''" "[trackA, trackB]" uploadedWorld,
         rule_format, OF t2] f2 st out(1)
  have 2: "jobStatus j2 = JobCompletedWithErrors \<and> zipPath j2 = Some (jobDirJ @ [''hls-output.zip''])"
    by simp
  from transcode_terminal_status [of sampleEnv "''j''" "[trackA]" uploadedWorld,
         rule_format, OF ta] fa st out(2)
  have a: "jobStatus ja = JobCompleted"
    by simp
  from transcode_terminal_status [of sampleEnv "''j''" "[trackB]" uploadedWorld,
         rule_format, OF tb] fb st
  have b: "jobStatus jb = JobFailed \<and> jobError jb = Some ''All files failed to transcode'' \<and>
           zipPath jb = None"
    by simp
  from t2 ta tb 2 a b show ?thesis by simp
qed

section \<open>Archive Assembler and archive retrieval\<close>

lemma entries_iff: "n \<in> set (entries d p) \<longleftrightarrow> map_of d (p @ [n]) \<noteq> None"
proof
  assume "n \<in> set (entries d p)"
  then have "p @ [n] \<in> fst ` set d" by (rule entries_mem)
  then show "map_of d (p @ [n]) \<noteq> None" by (simp add: map_of_eq_None_iff)
next
  assume "map_of d (p @ [n]) \<noteq> None"
  then have "p @ [n] \<in> set (remdups (map fst d))" by (simp add: map_of_eq_None_iff)
  then have "last (p @ [n]) \<in>
      last ` set (filter (\<lambda>q. q \<noteq> [] \<and> butlast q = p) (remdups (map fst d)))"
    by (intro imageI) simp
  then show "n \<in> set (entries d p)" by (simp add: entries_def)
qed

lemma archiveItems_iff:
  "(q, n) \<in> set (archiveItems d od (entries d od)) \<longleftrightarrow>
     q = od @ [n] \<and> map_of d (od @ [n]) = Some Dir \<and> n \<noteq> ''uploads''"
  by (auto simp: archiveItems_def entries_iff isDirectory_def statNode_def)

lemma createZipArchive_resolved:
  assumes "createZipArchive e jid od w = (Inr zp, w')"
  shows "trace w' = trace w @ [Archive zp (archiveItems (disk w) od (entries (disk w) od))]"
    and "existsSync (disk w') zp"
    and "zp = path_join od ''hls-output.zip''"
proof -
  let ?zp = "path_join od ''hls-output.zip''"
  let ?added = "archiveItems (disk w) od (entries (disk w) od)"
  have "trace w' = trace w @ [Archive zp ?added] \<and> existsSync (disk w') zp \<and> zp = ?zp"
  proof (cases "readdirSync (disk w) od")
    case (Inl err)
    with assms show ?thesis by (simp add: createZipArchive_def Let_def)
  next
    case (Inr items)
    then have items: "items = entries (disk w) od"
      by (simp add: readdirSync_def split: option.splits node.splits)
    show ?thesis
    proof (cases "archiver e (disk w) ?zp ?added")
      case (Inl m)
      with assms Inr items show ?thesis by (simp add: createZipArchive_def Let_def)
    next
      case (Inr bytes)
      with assms \<open>readdirSync (disk w) od = Inr items\<close> items
      have "zp = ?zp" and "w' = w\<lparr> trace := trace w @ [Archive ?zp ?added],
                                    disk := AList.update ?zp (File bytes) (disk w) \<rparr>"
        by (auto simp: createZipArchive_def Let_def)
      then show ?thesis by (simp add: existsSync_def statNode_def update_conv')
    qed
  qed
  then show "trace w' = trace w @ [Archive zp ?added]" and "existsSync (disk w') zp"
    and "zp = ?zp" by auto
qed

lemma storeJob_disk_trace:
  "disk (snd (storeJob jid j w)) = disk w \<and> trace (snd (storeJob jid j w)) = trace w"
  by (simp add: storeJob_def)

text \<open>When \<^verbatim>\<open>transcode\<close> returns a job with an archive path, the archiving step has run.\<close>

lemma transcode_archived:
  assumes "transcode e jid fs w = (j, w')" and "zipPath j = Some zp"
  shows "\<exists>w2. createZipArchive e jid (path_join TEMP_DIR jid) (afterLoop e jid fs w) = (Inr zp, w2) \<and>
              disk w' = disk w2 \<and> trace w' = trace w2"
proof -
  let ?j0 = "fst (initJob (startTime e) jid fs w)"
  let ?w1 = "afterLoop e jid fs w"
  let ?jd = "path_join TEMP_DIR jid"
  from afterLoop_job [of e jid fs w] obtain b where
    b: "map_of (jobs ?w1) jid = Some (withFiles ?j0 b)" by blast
  let ?j1 = "withFiles ?j0 b"
  have z0: "zipPath ?j1 = None" by (simp add: withFiles_fields initJob_fst)
  obtain ar w2 where ar: "createZipArchive e jid ?jd ?w1 = (ar, w2)"
    by (cases "createZipArchive e jid ?jd ?w1")
  from ar createZipArchive_jobs [of e jid ?jd ?w1] b
  have b2: "map_of (jobs w2) jid = Some ?j1" by simp
  show ?thesis
  proof (cases "filter (\<lambda>f. status f = Completed) b = []")
    case True
    with assms(1) b have "(j, w') = storeJob jid
         (?j1\<lparr> jobStatus := JobFailed, jobError := Some ''All files failed to transcode'',
               completedAt := Some (endTime e) \<rparr>) ?w1"
      by (simp add: transcode_def Let_def afterLoop_def [symmetric] withFiles_fields)
    with storeJob_present [OF b] z0 assms(2) show ?thesis
      by (simp add: prod_eq_iff)
  next
    case False
    show ?thesis
    proof (cases ar)
      case (Inl err)
      with assms(1) b ar False have "(j, w') = storeJob jid
           (?j1\<lparr> jobStatus := JobFailed, jobError := Some (message err),
                 completedAt := Some (endTime e) \<rparr>) w2"
        by (simp add: transcode_def Let_def afterLoop_def [symmetric] withFiles_fields)
      with storeJob_present [OF b2] z0 assms(2) show ?thesis
        by (simp add: prod_eq_iff)
    next
      case (Inr zp')
      with assms(1) b ar False have eq: "(j, w') = storeJob jid
           (?j1\<lparr> zipPath := Some zp',
                 jobStatus := (if failedFiles ?j1 > 0 then JobCompletedWithErrors
                               else JobCompleted),
                 completedAt := Some (endTime e) \<rparr>) w2"
        by (simp add: transcode_def Let_def afterLoop_def [symmetric] withFiles_fields)
      with storeJob_present [OF b2] assms(2) have "zp' = zp" by (simp add: prod_eq_iff)
      moreover from eq have "w' = snd (storeJob jid
           (?j1\<lparr> zipPath := Some zp',
                 jobStatus := (if failedFiles ?j1 > 0 then JobCompletedWithErrors
                               else JobCompleted),
                 completedAt := Some (endTime e) \<rparr>) w2)"
        by (simp add: prod_eq_iff)
      then have "disk w' = disk w2 \<and> trace w' = trace w2"
        by (simp add: storeJob_disk_trace)
      ultimately show ?thesis using ar Inr by simp
    qed
  qed
qed

text \<open>The listing that the archiving step of the sample job with both uploads sees.\<close>

lemma sample_listing:
  "archiveItems (disk uploadedWorld @ packageA @ dirsB) jobDirJ
     (entries (disk uploadedWorld @ packageA @ dirsB) jobDirJ)
   = [(jobDirJ @ [''a''], ''a''), (jobDirJ @ [''b''], ''b'')]"
  "archiveItems (disk uploadedWorld @ packageA) jobDirJ
     (entries (disk uploadedWorld @ packageA) jobDirJ)
   = [(jobDirJ @ [''a''], ''a'')]"
  by (simp_all add: archiveItems_def entries_def uploadedWorld_def packageA_def dirsB_def
        jobDirJ_def isDirectory_def statNode_def)

text \<open>How the sample jobs are settled when the encoder and the archiver are the sample ones.\<close>

lemma sample_settled:
  assumes "ffmpeg e = sampleEncoder" and "startTime e = 1000"
    and "archiver e = (\<lambda>d zp items. Inr bytes)"
  shows "jobStatus (fst (transcode e ''j'' [trackA, trackB] uploadedWorld))
           = JobCompletedWithErrors"
    and "zipPath (fst (transcode e ''j'' [trackA, trackB] uploadedWorld))
           = Some (jobDirJ @ [''hls-output.zip''])"
    and "getJobStatus (snd (transcode e ''j'' [trackA, trackB] uploadedWorld)) ''j''
           = Some (fst (transcode e ''j'' [trackA, trackB] uploadedWorld))"
    and "jobStatus (fst (transcode e ''j'' [trackA] uploadedWorld)) = JobCompleted"
    and "zipPath (fst (transcode e ''j'' [trackA] uploadedWorld))
           = Some (jobDirJ @ [''hls-output.zip''])"
proof -
  have st: "status entryA = Completed" "status entryB = Failed"
    by (simp_all add: entryA_def entryB_def)
  note out = sample_archived [OF assms]
  note fs = sample_files [OF assms(1,2)]
  obtain j2 w2 where t2: "transcode e ''j'' [trackA, trackB] uploadedWorld = (j2, w2)"
    by (cases "transcode e ''j'' [trackA, trackB] uploadedWorld")
  obtain ja wa where ta: "transcode e ''j'' [trackA] uploadedWorld = (ja, wa)"
    by (cases "transcode e ''j'' [trackA] uploadedWorld")
  from t2 have "jobStatus j2 = JobCompletedWithErrors \<and>
                zipPath j2 = Some (jobDirJ @ [''hls-output.zip'']) \<and>
                getJobStatus w2 ''j'' = Some j2"
  proof (rule transcode_cases)
    fix b
    assume "files j2 = b" and "getJobStatus w2 ''j'' = Some j2"
      and "(filter (\<lambda>f. status f = Completed) b = [] \<and> jobStatus j2 = JobFailed \<and>
          jobError j2 = Some ''All files failed to transcode'' \<and> zipPath j2 = None) \<or>
         (filter (\<lambda>f. status f = Completed) b \<noteq> [] \<and>
          (\<exists>err. archiveOutcome e ''j'' [trackA, trackB] uploadedWorld = Inl err \<and>
                 jobStatus j2 = JobFailed \<and> jobError j2 = Some (message err) \<and>
                 zipPath j2 = None)) \<or>
         (filter (\<lambda>f. status f = Completed) b \<noteq> [] \<and>
          (\<exists>zp. archiveOutcome e ''j'' [trackA, trackB] uploadedWorld = Inr zp \<and>
                zipPath j2 = Some zp \<and>
                jobStatus j2 = (if 0 < length (filter (\<lambda>f. status f = Failed) b)
                               then JobCompletedWithErrors else JobCompleted)))"
    with fs(1) t2 st out(1) show ?thesis by auto
  qed
  with t2 show "jobStatus (fst (transcode e ''j'' [trackA, trackB] uploadedWorld))
           = JobCompletedWithErrors"
    and "zipPath (fst (transcode e ''j'' [trackA, trackB] uploadedWorld))
           = Some (jobDirJ @ [''hls-output.zip''])"
    and "getJobStatus (snd (transcode e ''j'' [trackA, trackB] uploadedWorld)) ''j''
           = Some (fst (transcode e ''j'' [trackA, trackB] uploadedWorld))"
    by simp_all
  from ta have "jobStatus ja = JobCompleted \<and> zipPath ja = Some (jobDirJ @ [''hls-output.zip''])"
  proof (rule transcode_cases)
    fix b
    assume "files ja = b"
      and "(filter (\<lambda>f. status f = Completed) b = [] \<and> jobStatus ja = JobFailed \<and>
          jobError ja = Some ''All files failed to transcode'' \<and> zipPath ja = None) \<or>
         (filter (\<lambda>f. status f = Completed) b \<noteq> [] \<and>
          (\<exists>err. archiveOutcome e ''j'' [trackA] uploadedWorld = Inl err \<and>
                 jobStatus ja = JobFailed \<and> jobError ja = Some (message err) \<and>
                 zipPath ja = None)) \<or>
         (filter (\<lambda>f. status f = Completed) b \<noteq> [] \<and>
          (\<exists>zp. archiveOutcome e ''j'' [trackA] uploadedWorld = Inr zp \<and>
                zipPath ja = Some zp \<and>
                jobStatus ja = (if 0 < length (filter (\<lambda>f. status f = Failed) b)
                               then JobCompletedWithErrors else JobCompleted)))"
    with fs(2) ta st out(2) show ?thesis by auto
  qed
  with ta show "jobStatus (fst (transcode e ''j'' [trackA] uploadedWorld)) = JobCompleted"
    and "zipPath (fst (transcode e ''j'' [trackA] uploadedWorld))
           = Some (jobDirJ @ [''hls-output.zip''])"
    by simp_all
qed

lemma sample_env:
  "ffmpeg sampleEnv = sampleEncoder" "startTime sampleEnv = 1000"
  "archiver sampleEnv = (\<lambda>d zp items. Inr ''PK'')"
  by (simp_all add: sampleEnv_def)

text \<open>
  C6, as the specification states it, fails: the archive takes every sub-directory of the
  job directory. In the sample job the build of \<^verbatim>\<open>b.mp3\<close> fails after its variant directories
  were created; its entry is \<^verbatim>\<open>failed\<close>, and its directory \<^verbatim>\<open>b\<close> is handed to the archiver
  next to the package \<^verbatim>\<open>a\<close>.
\<close>

theorem archive_includes_failed_counterexample:
  "files (fst (transcode sampleEnv ''j'' [trackA, trackB] uploadedWorld)) = [entryA, entryB] \<and>
   name entryB = ''b.mp3'' \<and> status entryB = Failed \<and>
   packageDir jobDirJ ''b.mp3'' = jobDirJ @ [''b''] \<and>
   last (trace (snd (transcode sampleEnv ''j'' [trackA, trackB] uploadedWorld)))
     = Archive (jobDirJ @ [''hls-output.zip''])
         [(jobDirJ @ [''a''], ''a''), (jobDirJ @ [''b''], ''b'')]"
proof -
  obtain j w' where t: "transcode sampleEnv ''j'' [trackA, trackB] uploadedWorld = (j, w')"
    by (cases "transcode sampleEnv ''j'' [trackA, trackB] uploadedWorld")
  from sample_settled(2) [OF sample_env] t
  have z: "zipPath j = Some (jobDirJ @ [''hls-output.zip''])" by simp
  from transcode_archived [OF t z] obtain w2 where
    a: "createZipArchive sampleEnv ''j'' (path_join TEMP_DIR ''j'')
          (afterLoop sampleEnv ''j'' [trackA, trackB] uploadedWorld)
        = (Inr (jobDirJ @ [''hls-output.zip'']), w2)"
    and tr: "trace w' = trace w2" by blast
  from createZipArchive_resolved(1) [OF a] tr
  have "last (trace w') = Archive (jobDirJ @ [''hls-output.zip''])
         [(jobDirJ @ [''a''], ''a''), (jobDirJ @ [''b''], ''b'')]"
    by (simp add: jobDirJ_join loop_partial(2) [OF sample_env(1,2)] sample_listing)
  moreover have "name entryB = ''b.mp3''" "status entryB = Failed" by (simp_all add: entryB_def)
  moreover note sample_files(1) [OF sample_env(1,2)] sample_paths(2)
  ultimately show ?thesis using t by simp
qed

text \<open>
  C6, amended. The archive of a job holds exactly the immediate sub-directories of the job
  directory that exist when archiving starts, other than \<^verbatim>\<open>uploads\<close>, each under its own
  name: whether the file that a directory belongs to was completed or failed plays no
  part. For \<^verbatim>\<open>transcode\<close>, archiving starts in the state in which the file loop ends.
\<close>

theorem archive_contents:
  "(\<forall>zp w'. createZipArchive e jid od w = (Inr zp, w') \<longrightarrow>
      (\<exists>items. trace w' = trace w @ [Archive zp items] \<and>
         (\<forall>q n. (q, n) \<in> set items \<longleftrightarrow>
                  q = od @ [n] \<and> map_of (disk w) (od @ [n]) = Some Dir \<and> n \<noteq> ''uploads''))) \<and>
   (\<forall>fs w0 j w' zp. transcode e jid fs w0 = (j, w') \<and> zipPath j = Some zp \<longrightarrow>
      (\<exists>items. last (trace w') = Archive zp items \<and>
         (\<forall>q n. (q, n) \<in> set items \<longleftrightarrow>
                  q = path_join TEMP_DIR jid @ [n] \<and>
                  map_of (disk (afterLoop e jid fs w0)) (path_join TEMP_DIR jid @ [n]) = Some Dir \<and>
                  n \<noteq> ''uploads'')))"
proof (intro conjI allI impI)
  fix zp w'
  assume a: "createZipArchive e jid od w = (Inr zp, w')"
  from createZipArchive_resolved(1) [OF a] archiveItems_iff [of _ _ "disk w" od]
  show "\<exists>items. trace w' = trace w @ [Archive zp items] \<and>
         (\<forall>q n. (q, n) \<in> set items \<longleftrightarrow>
                  q = od @ [n] \<and> map_of (disk w) (od @ [n]) = Some Dir \<and> n \<noteq> ''uploads'')"
    by (intro exI [of _ "archiveItems (disk w) od (entries (disk w) od)"]) simp
next
  fix fs w0 j w' zp
  assume "transcode e jid fs w0 = (j, w') \<and> zipPath j = Some zp"
  then have t: "transcode e jid fs w0 = (j, w')" and z: "zipPath j = Some zp" by simp_all
  let ?jd = "path_join TEMP_DIR jid"
  let ?w1 = "afterLoop e jid fs w0"
  from transcode_archived [OF t z] obtain w2 where
    a: "createZipArchive e jid ?jd ?w1 = (Inr zp, w2)" and tr: "trace w' = trace w2" by blast
  from createZipArchive_resolved(1) [OF a] tr archiveItems_iff [of _ _ "disk ?w1" ?jd]
  show "\<exists>items. last (trace w') = Archive zp items \<and>
         (\<forall>q n. (q, n) \<in> set items \<longleftrightarrow>
                  q = ?jd @ [n] \<and> map_of (disk ?w1) (?jd @ [n]) = Some Dir \<and> n \<noteq> ''uploads'')"
    by (intro exI [of _ "archiveItems (disk ?w1) ?jd (entries (disk ?w1) ?jd)"]) simp
qed

theorem archive_contents_witness:
  "zipPath (fst (transcode sampleEnv ''j'' [trackA] uploadedWorld))
     = Some (jobDirJ @ [''hls-output.zip'']) \<and>
   (\<exists>items. last (trace (snd (transcode sampleEnv ''j'' [trackA] uploadedWorld)))
              = Archive (jobDirJ @ [''hls-output.zip'']) items \<and>
            (jobDirJ @ [''a''], ''a'') \<in> set items \<and>
            (jobDirJ @ [''a.mp3''], ''a.mp3'') \<notin> set items)"
proof -
  obtain j w' where t: "transcode sampleEnv ''j'' [trackA] uploadedWorld = (j, w')"
    by (cases "transcode sampleEnv ''j'' [trackA] uploadedWorld")
  from sample_settled(5) [OF sample_env] t
  have z: "zipPath j = Some (jobDirJ @ [''hls-output.zip''])" by simp
  have d: "map_of (disk (afterLoop sampleEnv ''j'' [trackA] uploadedWorld)) (jobDirJ @ [''a''])
             = Some Dir"
    "map_of (disk (afterLoop sampleEnv ''j'' [trackA] uploadedWorld)) (jobDirJ @ [''a.mp3''])
             \<noteq> Some Dir"
    unfolding loop_a(2) [OF sample_env(1,2)]
    by (simp_all add: uploadedWorld_def packageA_def jobDirJ_def)
  from archive_contents [of sampleEnv "''j''", THEN conjunct2, rule_format, OF conjI, OF t z]
  obtain items where
    l: "last (trace w') = Archive (jobDirJ @ [''hls-output.zip'']) items"
    and m: "\<And>q n. (q, n) \<in> set items \<longleftrightarrow>
                q = jobDirJ @ [n] \<and>
                map_of (disk (afterLoop sampleEnv ''j'' [trackA] uploadedWorld)) (jobDirJ @ [n])
                  = Some Dir \<and> n \<noteq> ''uploads''"
    unfolding jobDirJ_join by blast
  from m [of "jobDirJ @ [''a'']" "''a''"] d(1) have 1: "(jobDirJ @ [''a''], ''a'') \<in> set items"
    by simp
  from m [of "jobDirJ @ [''a.mp3'']" "''a.mp3''"] d(2)
  have 2: "(jobDirJ @ [''a.mp3''], ''a.mp3'') \<notin> set items"
    by simp
  from t z l 1 2 show ?thesis by auto
qed

text \<open>
  The handler of \<^verbatim>\<open>GET /download/:jobId\<close> serves the archive exactly when the job is in the
  registry with status \<^verbatim>\<open>completed\<close> and its archive path exists on disk.
\<close>

lemma download_serves_iff:
  "download w jid = SendFile zp n \<longleftrightarrow>
     (\<exists>j. getJobStatus w jid = Some j \<and> jobStatus j = JobCompleted \<and> zipPath j = Some zp \<and>
          existsSync (disk w) zp \<and> n = ''hls-'' @ jid @ ''.zip'')"
  by (auto simp: download_def split: option.splits)

text \<open>
  C5 at the sample job with one completed and one failed file: the job has reached
  \<^verbatim>\<open>completed_with_errors\<close>, its archive path is set and the archive is on disk, and the
  handler answers 400 \<^verbatim>\<open>Job not yet completed\<close>.
\<close>

theorem download_partial_success_rejected:
  "getJobStatus (snd (transcode sampleEnv ''j'' [trackA, trackB] uploadedWorld)) ''j''
     = Some (fst (transcode sampleEnv ''j'' [trackA, trackB] uploadedWorld)) \<and>
   jobStatus (fst (transcode sampleEnv ''j'' [trackA, trackB] uploadedWorld))
     = JobCompletedWithErrors \<and>
   zipPath (fst (transcode sampleEnv ''j'' [trackA, trackB] uploadedWorld))
     = Some (jobDirJ @ [''hls-output.zip'']) \<and>
   existsSync (disk (snd (transcode sampleEnv ''j'' [trackA, trackB] uploadedWorld)))
     (jobDirJ @ [''hls-output.zip'']) \<and>
   download (snd (transcode sampleEnv ''j'' [trackA, trackB] uploadedWorld)) ''j''
     = Json 400 ''Job not yet completed''"
proof -
  obtain j w' where t: "transcode sampleEnv ''j'' [trackA, trackB] uploadedWorld = (j, w')"
    by (cases "transcode sampleEnv ''j'' [trackA, trackB] uploadedWorld")
  from sample_settled(1,2,3) [OF sample_env] t
  have s: "jobStatus j = JobCompletedWithErrors"
    and z: "zipPath j = Some (jobDirJ @ [''hls-output.zip''])"
    and g: "getJobStatus w' ''j'' = Some j" by simp_all
  from transcode_archived [OF t z] obtain w2 where
    a: "createZipArchive sampleEnv ''j'' (path_join TEMP_DIR ''j'')
          (afterLoop sampleEnv ''j'' [trackA, trackB] uploadedWorld)
        = (Inr (jobDirJ @ [''hls-output.zip'']), w2)"
    and d: "disk w' = disk w2" by blast
  from createZipArchive_resolved(2) [OF a] d
  have ex: "existsSync (disk w') (jobDirJ @ [''hls-output.zip''])" by simp
  from g s have "download w' ''j'' = Json 400 ''Job not yet completed''"
    by (simp add: download_def)
  with t g s z ex show ?thesis by simp
qed

section \<open>Deletion and the expiry sweep\<close>

lemma take_prefix: "take (length p) q = p \<longleftrightarrow> prefix p q"
  by (metis append_take_drop_id prefix_def append_eq_conv_conj)

lemma map_of_filter_key:
  "map_of (filter (\<lambda>(k, v). P k) d) q = (if P q then map_of d q else None)"
  by (induction d) auto

lemma map_of_rmSync:
  "map_of (rmSync d p) q = (if prefix p q then None else map_of d q)"
  by (simp add: rmSync_def map_of_filter_key take_prefix)

lemma existsSync_iff: "existsSync d p \<longleftrightarrow> p = [] \<or> map_of d p \<noteq> None"
  by (simp add: existsSync_def statNode_def)

lemma cleanupJob_disk:
  "map_of (disk (cleanupJob jid w)) q =
     (if existsSync (disk w) (path_join TEMP_DIR jid) \<and> prefix (path_join TEMP_DIR jid) q
      then None else map_of (disk w) q)"
  by (simp add: cleanupJob_def Let_def map_of_rmSync)

lemma cleanupJob_trace: "trace (cleanupJob jid w) = trace w"
  by (simp add: cleanupJob_def Let_def)

text \<open>
  The sweep as a loop over the entries \<open>xs\<close> that the iterator yields, from a state
  \<open>w\<close>. \<^verbatim>\<open>cleanupOldJobs\<close> is this loop with the entries of the registry of \<open>w\<close>.
\<close>

lemma sweep_jobs:
  "map_of (jobs (fold (\<lambda>(jid, j) w'. if E j then cleanupJob jid w' else w') xs w)) k =
     (if \<exists>j. (k, j) \<in> set xs \<and> E j then None else map_of (jobs w) k)"
proof (induction xs arbitrary: w)
  case Nil
  then show ?case by simp
next
  case (Cons x xs)
  obtain k' j' where x: "x = (k', j')" by (cases x)
  show ?case
  proof (cases "E j'")
    case True
    with x Cons.IH [of "cleanupJob k' w"] show ?thesis
      by (auto simp: jobs_cleanupJob delete_conv')
  next
    case False
    with x Cons.IH [of w] show ?thesis by auto
  qed
qed

lemma sweep_trace:
  "trace (fold (\<lambda>(jid, j) w'. if E j then cleanupJob jid w' else w') xs w) = trace w"
  by (induction xs arbitrary: w) (auto simp: cleanupJob_trace)

lemma sweep_disk_absent:
  "map_of (disk w) q = None \<Longrightarrow>
   map_of (disk (fold (\<lambda>(jid, j) w'. if E j then cleanupJob jid w' else w') xs w)) q = None"
proof (induction xs arbitrary: w)
  case Nil
  then show ?case by simp
next
  case (Cons x xs)
  obtain k' j' where x: "x = (k', j')" by (cases x)
  from Cons.prems have "map_of (disk (cleanupJob k' w)) q = None"
    by (simp add: cleanupJob_disk)
  with Cons.prems x Cons.IH [of "cleanupJob k' w"] Cons.IH [of w] show ?case by simp
qed

lemma sweep_disk_untouched:
  "\<forall>(k, j) \<in> set xs. E j \<longrightarrow> \<not> prefix (path_join TEMP_DIR k) q \<Longrightarrow>
   map_of (disk (fold (\<lambda>(jid, j) w'. if E j then cleanupJob jid w' else w') xs w)) q
     = map_of (disk w) q"
proof (induction xs arbitrary: w)
  case Nil
  then show ?case by simp
next
  case (Cons x xs)
  obtain k' j' where x: "x = (k', j')" by (cases x)
  from Cons.prems have rest: "\<forall>(k, j) \<in> set xs. E j \<longrightarrow> \<not> prefix (path_join TEMP_DIR k) q"
    by simp
  show ?case
  proof (cases "E j'")
    case True
    with Cons.prems x have "\<not> prefix (path_join TEMP_DIR k') q" by simp
    then have "map_of (disk (cleanupJob k' w)) q = map_of (disk w) q"
      by (simp add: cleanupJob_disk)
    with True x Cons.IH [OF rest, of "cleanupJob k' w"] show ?thesis by simp
  next
    case False
    with x Cons.IH [OF rest, of w] show ?thesis by simp
  qed
qed

lemma sweep_disk_removed:
  "(k, j) \<in> set xs \<Longrightarrow> E j \<Longrightarrow> prefix (path_join TEMP_DIR k) q \<Longrightarrow>
   existsSync (disk w) (path_join TEMP_DIR k) \<Longrightarrow>
   map_of (disk (fold (\<lambda>(jid, j) w'. if E j then cleanupJob jid w' else w') xs w)) q = None"
proof (induction xs arbitrary: w)
  case Nil
  then show ?case by simp
next
  case (Cons x xs)
  let ?step = "\<lambda>(jid, j) w'. if E j then cleanupJob jid w' else w'"
  let ?jd = "path_join TEMP_DIR k"
  obtain k' j' where x: "x = (k', j')" by (cases x)
  let ?w2 = "?step x w"
  have absent_then_done: "map_of (disk ?w2) q = None \<Longrightarrow> ?case"
    using sweep_disk_absent [of ?w2 q E xs] by simp
  show ?case
  proof (cases "x = (k, j)")
    case True
    with Cons.prems have "map_of (disk ?w2) q = None" by (simp add: cleanupJob_disk)
    then show ?thesis by (rule absent_then_done)
  next
    case False
    with Cons.prems(1) have mem: "(k, j) \<in> set xs" by simp
    show ?thesis
    proof (cases "existsSync (disk ?w2) ?jd")
      case True
      from Cons.IH [OF mem Cons.prems(2) Cons.prems(3) True] show ?thesis by simp
    next
      case gone: False
      then have ne: "?jd \<noteq> []" and now_absent: "map_of (disk ?w2) ?jd = None"
        by (simp_all add: existsSync_iff)
      from Cons.prems(4) ne have was: "map_of (disk w) ?jd \<noteq> None"
        by (simp add: existsSync_iff)
      with now_absent x have "E j'"
        by (cases "E j'") auto
      with x now_absent was have
        "existsSync (disk w) (path_join TEMP_DIR k') \<and> prefix (path_join TEMP_DIR k') ?jd"
        by (auto simp: cleanupJob_disk split: if_splits)
      with Cons.prems(3) have
        "existsSync (disk w) (path_join TEMP_DIR k') \<and> prefix (path_join TEMP_DIR k') q"
        using prefix_order.order_trans by blast
      with x \<open>E j'\<close> have "map_of (disk ?w2) q = None" by (simp add: cleanupJob_disk)
      then show ?thesis by (rule absent_then_done)
    qed
  qed
qed

lemma reachable_distinct: "reachable w \<Longrightarrow> distinct (map fst (jobs w))"
proof (induction rule: reachable.induct)
  case (start w)
  then show ?case by simp
next
  case (init w now jid fs)
  then show ?case by (simp add: initJob_snd distinct_update)
next
  case (update w jid fileName upd)
  then show ?case
    by (simp add: updateFileStatus_def Let_def distinct_update split: option.split)
next
  case (settle w jid j z s er c)
  then show ?case by (simp add: storeJob_def distinct_update)
next
  case (cleanup w jid)
  then show ?case by (simp add: jobs_cleanupJob distinct_delete)
next
  case (other w w')
  then show ?case by simp
qed

lemma cleanupOldJobs_fold:
  "cleanupOldJobs now T w =
     fold (\<lambda>(jid, j) w'. if expired now T j then cleanupJob jid w' else w') (jobs w) w"
  by (simp add: cleanupOldJobs_def expired_def)

text \<open>
  C8. In a registry without repeated keys (every state of the service has one, see
  \<open>reachable_distinct\<close>) the sweep removes from the registry exactly the jobs whose age
  exceeds the threshold and keeps every other job as it is; the status of a job plays no
  part. For a removed job whose id is a plain path segment (as the ids that \<^verbatim>\<open>index.js\<close>
  generates are) the job directory does not exist afterwards, and nothing that was below
  it is left. No path outside the directories of the removed jobs is touched; when all
  ids are plain segments, that covers the whole directory of every job that is kept.
\<close>

theorem sweep_removes_exactly_expired:
  assumes "distinct (map fst (jobs w))"
  shows "(\<forall>k. getJobStatus (cleanupOldJobs now T w) k =
               (case getJobStatus w k of
                  None \<Rightarrow> None
                | Some j \<Rightarrow> if now - startedAt j > T * 60 * 1000 then None else Some j)) \<and>
         (\<forall>k j. getJobStatus w k = Some j \<and> now - startedAt j > T * 60 * 1000 \<and>
                plainSegment k \<longrightarrow>
            \<not> existsSync (disk (cleanupOldJobs now T w)) (TEMP_DIR @ [k]) \<and>
            (\<forall>q. prefix (TEMP_DIR @ [k]) q \<and> existsSync (disk w) (TEMP_DIR @ [k]) \<longrightarrow>
                 map_of (disk (cleanupOldJobs now T w)) q = None)) \<and>
         (\<forall>q. (\<forall>k j. getJobStatus w k = Some j \<and> now - startedAt j > T * 60 * 1000 \<longrightarrow>
                     \<not> prefix (path_join TEMP_DIR k) q) \<longrightarrow>
              map_of (disk (cleanupOldJobs now T w)) q = map_of (disk w) q) \<and>
         (\<forall>k j q. getJobStatus w k = Some j \<and> \<not> now - startedAt j > T * 60 * 1000 \<and>
                  (\<forall>k' \<in> fst ` set (jobs w). plainSegment k') \<and> prefix (TEMP_DIR @ [k]) q \<longrightarrow>
              map_of (disk (cleanupOldJobs now T w)) q = map_of (disk w) q) \<and>
         trace (cleanupOldJobs now T w) = trace w"
proof -
  let ?w' = "cleanupOldJobs now T w"
  from assms have mem: "\<And>k j. (k, j) \<in> set (jobs w) \<longleftrightarrow> map_of (jobs w) k = Some j"
    by simp
  have jobs: "\<And>k. getJobStatus ?w' k =
               (case getJobStatus w k of
                  None \<Rightarrow> None
                | Some j \<Rightarrow> if now - startedAt j > T * 60 * 1000 then None else Some j)"
    unfolding getJobStatus_def cleanupOldJobs_fold sweep_jobs mem
    by (auto simp: expired_def split: option.split)
  have removed: "\<not> existsSync (disk ?w') (TEMP_DIR @ [k]) \<and>
            (\<forall>q. prefix (TEMP_DIR @ [k]) q \<and> existsSync (disk w) (TEMP_DIR @ [k]) \<longrightarrow>
                 map_of (disk ?w') q = None)"
    if "getJobStatus w k = Some j \<and> now - startedAt j > T * 60 * 1000 \<and> plainSegment k"
    for k j
  proof -
    from that have in_xs: "(k, j) \<in> set (jobs w)" and ex: "expired now T j"
      and jd: "path_join TEMP_DIR k = TEMP_DIR @ [k]"
      by (simp_all add: mem getJobStatus_def expired_def path_join_plain)
    have below: "map_of (disk ?w') q = None"
      if "prefix (TEMP_DIR @ [k]) q" "existsSync (disk w) (TEMP_DIR @ [k])" for q
      using sweep_disk_removed [OF in_xs, of "expired now T" q w] ex that jd
      by (simp add: cleanupOldJobs_fold)
    have "map_of (disk ?w') (TEMP_DIR @ [k]) = None"
    proof (cases "existsSync (disk w) (TEMP_DIR @ [k])")
      case True
      then show ?thesis using below [of "TEMP_DIR @ [k]"] by simp
    next
      case False
      then have "map_of (disk w) (TEMP_DIR @ [k]) = None" by (simp add: existsSync_iff)
      then show ?thesis unfolding cleanupOldJobs_fold by (rule sweep_disk_absent)
    qed
    with below show ?thesis by (simp add: existsSync_iff)
  qed
  have untouched: "map_of (disk ?w') q = map_of (disk w) q"
    if "\<forall>k j. getJobStatus w k = Some j \<and> now - startedAt j > T * 60 * 1000 \<longrightarrow>
               \<not> prefix (path_join TEMP_DIR k) q" for q
  proof -
    from that have "\<forall>(k, j) \<in> set (jobs w). expired now T j \<longrightarrow> \<not> prefix (path_join TEMP_DIR k) q"
      by (auto simp: mem getJobStatus_def expired_def)
    then show ?thesis unfolding cleanupOldJobs_fold by (rule sweep_disk_untouched)
  qed
  have kept: "map_of (disk ?w') q = map_of (disk w) q"
    if h: "getJobStatus w k = Some j \<and> \<not> now - startedAt j > T * 60 * 1000 \<and>
        (\<forall>k' \<in> fst ` set (jobs w). plainSegment k') \<and> prefix (TEMP_DIR @ [k]) q" for k j q
  proof (rule untouched, intro allI impI notI)
    fix k' j'
    assume e: "getJobStatus w k' = Some j' \<and> now - startedAt j' > T * 60 * 1000"
      and p: "prefix (path_join TEMP_DIR k') q"
    from e have "(k', j') \<in> set (jobs w)" by (simp add: mem getJobStatus_def)
    then have "k' \<in> fst ` set (jobs w)" by force
    with h have "plainSegment k'" by blast
    with p have "prefix (TEMP_DIR @ [k']) q" by (simp add: path_join_plain)
    with h have "k' = k" by (auto simp: prefix_def)
    with e h show False by simp
  qed
  have tr: "trace ?w' = trace w" by (simp add: cleanupOldJobs_fold sweep_trace)
  show ?thesis
  proof (intro conjI allI impI)
    fix k
    show "getJobStatus ?w' k =
               (case getJobStatus w k of
                  None \<Rightarrow> None
                | Some j \<Rightarrow> if now - startedAt j > T * 60 * 1000 then None else Some j)"
      by (rule jobs)
  next
    fix k j
    assume h: "getJobStatus w k = Some j \<and> now - startedAt j > T * 60 * 1000 \<and> plainSegment k"
    from removed [OF h] show "\<not> existsSync (disk ?w') (TEMP_DIR @ [k])" by simp
    fix q
    assume "prefix (TEMP_DIR @ [k]) q \<and> existsSync (disk w) (TEMP_DIR @ [k])"
    with removed [OF h] show "map_of (disk ?w') q = None" by simp
  next
    fix q
    assume "\<forall>k j. getJobStatus w k = Some j \<and> now - startedAt j > T * 60 * 1000 \<longrightarrow>
                     \<not> prefix (path_join TEMP_DIR k) q"
    then show "map_of (disk ?w') q = map_of (disk w) q" by (rule untouched)
  next
    fix k j q
    assume "getJobStatus w k = Some j \<and> \<not> now - startedAt j > T * 60 * 1000 \<and>
        (\<forall>k' \<in> fst ` set (jobs w). plainSegment k') \<and> prefix (TEMP_DIR @ [k]) q"
    then show "map_of (disk ?w') q = map_of (disk w) q" by (rule kept)
  next
    show "trace ?w' = trace w" by (rule tr)
  qed
qed

theorem sweep_removes_exactly_expired_witness:
  "distinct (map fst (jobs sweepWorld)) \<and>
   map_option jobStatus (getJobStatus sweepWorld ''old'') = Some JobProcessing \<and>
   getJobStatus (cleanupOldJobs 3600001 60 sweepWorld) ''old'' = None \<and>
   getJobStatus (cleanupOldJobs 3600001 60 sweepWorld) ''new'' = getJobStatus sweepWorld ''new'' \<and>
   map_option startedAt (getJobStatus sweepWorld ''new'') = Some 3000000 \<and>
   \<not> existsSync (disk (cleanupOldJobs 3600001 60 sweepWorld)) (TEMP_DIR @ [''old'']) \<and>
   map_of (disk (cleanupOldJobs 3600001 60 sweepWorld)) (TEMP_DIR @ [''old'', ''a.mp3'']) = None \<and>
   map_of (disk (cleanupOldJobs 3600001 60 sweepWorld)) (TEMP_DIR @ [''new'', ''a.mp3''])
     = Some (File ''ID3 a'')"
proof -
  have d: "distinct (map fst (jobs sweepWorld))" by (simp add: sweepWorld_def)
  note t = sweep_removes_exactly_expired [OF d, of 3600001 60]
  have old: "getJobStatus sweepWorld ''old'' = Some (fst (initJob 0 ''old'' [trackA] emptyWorld))"
    and new: "getJobStatus sweepWorld ''new''
                = Some (fst (initJob 3000000 ''new'' [trackA] emptyWorld))"
    by (simp_all add: getJobStatus_def sweepWorld_def)
  have age: "(3600001::int) - startedAt (fst (initJob 0 ''old'' [trackA] emptyWorld)) > 60 * 60 * 1000"
    "\<not> (3600001::int) - startedAt (fst (initJob 3000000 ''new'' [trackA] emptyWorld))
         > 60 * 60 * 1000"
    by (simp_all add: initJob_fst)
  have plain: "plainSegment ''old''" "\<forall>k' \<in> fst ` set (jobs sweepWorld). plainSegment k'"
    by (simp_all add: plainSegment_def sweepWorld_def)
  have ex: "existsSync (disk sweepWorld) (TEMP_DIR @ [''old''])"
    by (simp add: existsSync_iff sweepWorld_def TEMP_DIR_def)
  from t [THEN conjunct1, rule_format, of "''old''"] old age(1)
  have 1: "getJobStatus (cleanupOldJobs 3600001 60 sweepWorld) ''old'' = None" by simp
  from t [THEN conjunct1, rule_format, of "''new''"] new age(2)
  have 2: "getJobStatus (cleanupOldJobs 3600001 60 sweepWorld) ''new''
             = getJobStatus sweepWorld ''new''" by simp
  from t [THEN conjunct2, THEN conjunct1, rule_format, OF conjI, OF old conjI, OF age(1) plain(1)]
  have 3: "\<not> existsSync (disk (cleanupOldJobs 3600001 60 sweepWorld)) (TEMP_DIR @ [''old''])"
    and below: "\<And>q. prefix (TEMP_DIR @ [''old'']) q \<and>
                   existsSync (disk sweepWorld) (TEMP_DIR @ [''old'']) \<longrightarrow>
                   map_of (disk (cleanupOldJobs 3600001 60 sweepWorld)) q = None"
    by simp_all
  from below [of "TEMP_DIR @ [''old'', ''a.mp3'']"] ex
  have 4: "map_of (disk (cleanupOldJobs 3600001 60 sweepWorld)) (TEMP_DIR @ [''old'', ''a.mp3''])
             = None" by simp
  have "prefix (TEMP_DIR @ [''new'']) (TEMP_DIR @ [''new'', ''a.mp3''])" by simp
  with t [THEN conjunct2, THEN conjunct2, THEN conjunct2, THEN conjunct1, rule_format,
          of "''new''" _ "TEMP_DIR @ [''new'', ''a.mp3'']"] new age(2) plain(2)
  have "map_of (disk (cleanupOldJobs 3600001 60 sweepWorld)) (TEMP_DIR @ [''new'', ''a.mp3''])
          = map_of (disk sweepWorld) (TEMP_DIR @ [''new'', ''a.mp3''])"
    by blast
  then have 5: "map_of (disk (cleanupOldJobs 3600001 60 sweepWorld))
                  (TEMP_DIR @ [''new'', ''a.mp3'']) = Some (File ''ID3 a'')"
    by (simp add: sweepWorld_def TEMP_DIR_def)
  from d old new 1 2 3 4 5 show ?thesis by (simp add: initJob_fst)
qed

section \<open>The exported operations stay within the states of the service\<close>

lemma fileLoop_reachable: "reachable w \<Longrightarrow> reachable (fileLoop e jid jd fs w)"
proof (induction fs arbitrary: w)
  case Nil
  then show ?case by simp
next
  case (Cons f fs)
  let ?w1 = "updateFileStatus jid (originalName f)
               \<lparr> u_status = Some Processing, u_hlsFolder = None, u_segmentCount = None,
                 u_error = None \<rparr> w"
  obtain r w2 where t: "transcodeFile e (path f) jd (originalName f) ?w1 = (r, w2)"
    by (cases "transcodeFile e (path f) jd (originalName f) ?w1")
  from Cons.prems have "reachable ?w1" by (rule reachable.update)
  moreover from t transcodeFile_jobs [of e "path f" jd "originalName f" ?w1]
  have "jobs w2 = jobs ?w1" by simp
  ultimately have r2: "reachable w2" by (rule reachable.other)
  show ?case
  proof (cases r)
    case (Inl err)
    with t Cons.IH [OF reachable.update [OF r2]] show ?thesis by simp
  next
    case (Inr pk)
    with t Cons.IH [OF reachable.update [OF r2]] show ?thesis by simp
  qed
qed

lemma storeJob_reachable:
  assumes "reachable w" and "map_of (jobs w) jid = Some j"
    and "files j' = files j" and "completedFiles j' = completedFiles j"
    and "failedFiles j' = failedFiles j" and "jobId j' = jobId j"
    and "startedAt j' = startedAt j"
  shows "reachable (snd (storeJob jid j' w))"
proof -
  from assms(3-7) have "j' = j\<lparr> zipPath := zipPath j', jobStatus := jobStatus j',
                                 jobError := jobError j', completedAt := completedAt j' \<rparr>"
    by simp
  with reachable.settle [OF assms(1,2), where z = "zipPath j'" and s = "jobStatus j'"
         and er = "jobError j'" and c = "completedAt j'"]
  show ?thesis by simp
qed

lemma transcode_reachable:
  assumes "reachable w"
  shows "reachable (snd (transcode e jid fs w))"
proof -
  let ?j0 = "fst (initJob (startTime e) jid fs w)"
  let ?w1 = "afterLoop e jid fs w"
  let ?jd = "path_join TEMP_DIR jid"
  from assms have r1: "reachable ?w1"
    unfolding afterLoop_def by (intro fileLoop_reachable reachable.init)
  from afterLoop_job [of e jid fs w] obtain b where
    b: "map_of (jobs ?w1) jid = Some (withFiles ?j0 b)" by blast
  let ?j1 = "withFiles ?j0 b"
  obtain ar w2 where ar: "createZipArchive e jid ?jd ?w1 = (ar, w2)"
    by (cases "createZipArchive e jid ?jd ?w1")
  from ar createZipArchive_jobs [of e jid ?jd ?w1] have j2: "jobs w2 = jobs ?w1" by simp
  with r1 have r2: "reachable w2" by (rule reachable.other)
  from b j2 have b2: "map_of (jobs w2) jid = Some ?j1" by simp
  show ?thesis
  proof (cases "filter (\<lambda>f. status f = Completed) b = []")
    case True
    with b have "snd (transcode e jid fs w) = snd (storeJob jid
         (?j1\<lparr> jobStatus := JobFailed, jobError := Some ''All files failed to transcode'',
               completedAt := Some (endTime e) \<rparr>) ?w1)"
      by (simp add: transcode_def Let_def afterLoop_def [symmetric] withFiles_fields)
    with storeJob_reachable [OF r1 b] show ?thesis by simp
  next
    case False
    show ?thesis
    proof (cases ar)
      case (Inl err)
      with b ar False have "snd (transcode e jid fs w) = snd (storeJob jid
           (?j1\<lparr> jobStatus := JobFailed, jobError := Some (message err),
                 completedAt := Some (endTime e) \<rparr>) w2)"
        by (simp add: transcode_def Let_def afterLoop_def [symmetric] withFiles_fields)
      with storeJob_reachable [OF r2 b2] show ?thesis by simp
    next
      case (Inr zp)
      with b ar False have "snd (transcode e jid fs w) = snd (storeJob jid
           (?j1\<lparr> zipPath := Some zp,
                 jobStatus := (if failedFiles ?j1 > 0 then JobCompletedWithErrors
                               else JobCompleted),
                 completedAt := Some (endTime e) \<rparr>) w2)"
        by (simp add: transcode_def Let_def afterLoop_def [symmetric] withFiles_fields)
      with storeJob_reachable [OF r2 b2] show ?thesis by simp
    qed
  qed
qed

lemma transcodeSync_reachable: "reachable w \<Longrightarrow> reachable (snd (transcodeSync e jid f w))"
  by (erule reachable.other) (rule transcodeSync_jobs)

lemma cleanupOldJobs_reachable: "reachable w \<Longrightarrow> reachable (cleanupOldJobs now T w)"
proof -
  have "reachable w \<Longrightarrow>
        reachable (fold (\<lambda>(jid, j) w'. if expired now T j then cleanupJob jid w' else w') xs w)"
    for xs
  proof (induction xs arbitrary: w)
    case Nil
    then show ?case by simp
  next
    case (Cons x xs)
    obtain k j where x: "x = (k, j)" by (cases x)
    from Cons.prems have "reachable (cleanupJob k w)" by (rule reachable.cleanup)
    with Cons.prems x Cons.IH [of "cleanupJob k w"] Cons.IH [of w] show ?case by simp
  qed
  then show "reachable w \<Longrightarrow> reachable (cleanupOldJobs now T w)"
    by (simp add: cleanupOldJobs_fold)
qed

end
